theory Spec2Isabelle
  imports Complex_Main
begin

section \<open>Tabular policy iteration (rl\_exercises/week\_2/policy\_iteration.py)\<close>

text \<open>
  The numerical core of the module (\<open>policy_evaluation\<close>, \<open>policy_improvement\<close>,
  \<open>policy_iteration\<close>) and the agent wrapper (\<open>update_agent\<close>, \<open>save\<close>, \<open>load\<close>)
  are embedded as HOL functions.  Python integers are \<open>int\<close> or \<open>nat\<close>.  An exception
  is a value \<open>Inl e\<close>; a \<open>while True\<close> loop that never reaches its \<open>break\<close> is the value
  \<open>None\<close>.

  Numbers that the source holds as float64 are exact reals here: rounding, overflow to
  \<open>inf\<close> and \<open>nan\<close> are outside the embedding.  The embedding therefore follows the
  program in its control flow, its indexing and its errors, and in its numbers only up
  to rounding: where a comparison of the program is decided by a rounding error, or a
  value overflows, the two differ.  A statement whose truth rests on exact arithmetic
  (that evaluation terminates, that an entry of \<open>Q\<close> equals the exact sum) is marked as
  such where it is made and is not put forward as a property of the program.
\<close>

subsection \<open>Exceptions and arrays\<close>

datatype error = IndexError | ValueError | FileNotFoundError

text \<open>
  A numpy array is its shape together with its elements.  One-dimensional arrays
  (\<open>V\<close>, the policy) are lists.  The reward matrix and the transition tensor carry
  their shape explicitly, so that empty axes are representable, and their elements as a
  function of the indices; only positions inside the shape are ever read.
\<close>

record matrix =
  mshape :: "nat \<times> nat"
  melem :: "nat \<Rightarrow> nat \<Rightarrow> real"

record tensor =
  tshape :: "nat \<times> nat \<times> nat"
  telem :: "nat \<Rightarrow> nat \<Rightarrow> nat \<Rightarrow> real"

text \<open>
  Indexing one axis of length \<open>n\<close> with a Python integer: a negative index counts from
  the end, anything outside \<open>[-n, n)\<close> raises \<open>IndexError\<close>.
\<close>

definition axis_index :: "nat \<Rightarrow> int \<Rightarrow> error + nat" where
  "axis_index n i =
     (if 0 \<le> i \<and> i < int n then Inr (nat i)
      else if - int n \<le> i \<and> i < 0 then Inr (nat (i + int n))
      else Inl IndexError)"

text \<open>\<open>v[i]\<close> for a one-dimensional array.\<close>

definition vget :: "'a list \<Rightarrow> int \<Rightarrow> error + 'a" where
  "vget v i = (case axis_index (length v) i of Inl e \<Rightarrow> Inl e | Inr j \<Rightarrow> Inr (v ! j))"

text \<open>\<open>R_sa[s, a]\<close>.\<close>

definition mget :: "matrix \<Rightarrow> int \<Rightarrow> int \<Rightarrow> error + real" where
  "mget M s a =
     (case mshape M of (d0, d1) \<Rightarrow>
        (case axis_index d0 s of Inl e \<Rightarrow> Inl e
         | Inr i \<Rightarrow> (case axis_index d1 a of Inl e \<Rightarrow> Inl e
                     | Inr j \<Rightarrow> Inr (melem M i j))))"

text \<open>\<open>T[s, a, s_next]\<close>.\<close>

definition tget :: "tensor \<Rightarrow> int \<Rightarrow> int \<Rightarrow> int \<Rightarrow> error + real" where
  "tget T s a s' =
     (case tshape T of (d0, d1, d2) \<Rightarrow>
        (case axis_index d0 s of Inl e \<Rightarrow> Inl e
         | Inr i \<Rightarrow> (case axis_index d1 a of Inl e \<Rightarrow> Inl e
                     | Inr j \<Rightarrow> (case axis_index d2 s' of Inl e \<Rightarrow> Inl e
                                 | Inr k \<Rightarrow> Inr (telem T i j k)))))"

text \<open>\<open>np.zeros((n, m))\<close>.\<close>

definition zeros2 :: "nat \<Rightarrow> nat \<Rightarrow> matrix" where
  "zeros2 n m = \<lparr> mshape = (n, m), melem = (\<lambda>_ _. 0) \<rparr>"

text \<open>\<open>np.arange(n)\<close>.\<close>

definition arange :: "nat \<Rightarrow> int list" where
  "arange n = map int [0..<n]"

text \<open>
  Python's \<open>sum(f(i) for i in xs)\<close>: the accumulator starts at 0 and the terms are added
  from left to right; the first term that raises ends the sum.
\<close>

fun py_sum :: "('a \<Rightarrow> error + real) \<Rightarrow> 'a list \<Rightarrow> real \<Rightarrow> error + real" where
  "py_sum f [] acc = Inr acc"
| "py_sum f (i # is) acc =
     (case f i of Inl e \<Rightarrow> Inl e | Inr x \<Rightarrow> py_sum f is (acc + x))"

text \<open>
  A \<open>for\<close> loop that fills one array position per iteration, in order; the first
  iteration that raises ends the loop.
\<close>

fun for_each :: "('a \<Rightarrow> error + 'b) \<Rightarrow> 'a list \<Rightarrow> error + 'b list" where
  "for_each f [] = Inr []"
| "for_each f (i # is) =
     (case f i of Inl e \<Rightarrow> Inl e
      | Inr x \<Rightarrow> (case for_each f is of Inl e \<Rightarrow> Inl e | Inr xs \<Rightarrow> Inr (x # xs)))"

text \<open>\<open>np.max\<close> of a one-dimensional array; the empty array has no maximum.\<close>

fun np_max :: "real list \<Rightarrow> error + real" where
  "np_max [] = Inl ValueError"
| "np_max (x # xs) = Inr (fold max xs x)"

text \<open>\<open>np.abs(V_new - V)\<close> for two arrays of the same length.\<close>

definition abs_diff :: "real list \<Rightarrow> real list \<Rightarrow> real list" where
  "abs_diff V_new V = map2 (\<lambda>x y. \<bar>x - y\<bar>) V_new V"

text \<open>
  \<open>np.argmax\<close> of a one-dimensional array: the index of the first occurrence of the
  maximum.  \<open>argmax_from\<close> scans with the best index and value so far.
\<close>

fun argmax_from :: "nat \<Rightarrow> real \<Rightarrow> nat \<Rightarrow> real list \<Rightarrow> nat" where
  "argmax_from bi bv i [] = bi"
| "argmax_from bi bv i (x # xs) =
     (if bv < x then argmax_from i x (Suc i) xs else argmax_from bi bv (Suc i) xs)"

fun argmax :: "real list \<Rightarrow> nat" where
  "argmax [] = 0"
| "argmax (x # xs) = argmax_from 0 x 1 xs"

subsection \<open>The Bellman backup\<close>

text \<open>
  One term \<open>T[s, a, s_next] * (R_sa[s, a] + gamma * V[s_next])\<close> and the sum of the terms
  over \<open>s_next in range(nS)\<close>, shared by evaluation and improvement.
\<close>

definition backup_term ::
  "tensor \<Rightarrow> matrix \<Rightarrow> real \<Rightarrow> real list \<Rightarrow> int \<Rightarrow> int \<Rightarrow> nat \<Rightarrow> error + real" where
  "backup_term T R_sa gamma V s a s_next =
     (case tget T s a (int s_next) of Inl e \<Rightarrow> Inl e
      | Inr t \<Rightarrow> (case mget R_sa s a of Inl e \<Rightarrow> Inl e
                  | Inr r \<Rightarrow> (case vget V (int s_next) of Inl e \<Rightarrow> Inl e
                              | Inr v \<Rightarrow> Inr (t * (r + gamma * v)))))"

definition backup ::
  "tensor \<Rightarrow> matrix \<Rightarrow> real \<Rightarrow> real list \<Rightarrow> nat \<Rightarrow> int \<Rightarrow> int \<Rightarrow> error + real" where
  "backup T R_sa gamma V nS s a = py_sum (backup_term T R_sa gamma V s a) [0..<nS] 0"

subsection \<open>policy\_evaluation\<close>

text \<open>One pass of the \<open>for s in range(nS)\<close> loop: \<open>V_new\<close> from \<open>V\<close>.\<close>

definition evaluation_sweep ::
  "int list \<Rightarrow> tensor \<Rightarrow> matrix \<Rightarrow> real \<Rightarrow> nat \<Rightarrow> real list \<Rightarrow> error + real list" where
  "evaluation_sweep \<pi> T R_sa gamma nS V =
     for_each (\<lambda>s. case vget \<pi> (int s) of Inl e \<Rightarrow> Inl e
                   | Inr a \<Rightarrow> backup T R_sa gamma V nS (int s) a) [0..<nS]"

text \<open>The \<open>while True\<close> loop, started from the current \<open>V\<close>.\<close>

partial_function (option) evaluation_loop ::
  "int list \<Rightarrow> tensor \<Rightarrow> matrix \<Rightarrow> real \<Rightarrow> real \<Rightarrow> nat \<Rightarrow> real list
     \<Rightarrow> (error + real list) option" where
  "evaluation_loop \<pi> T R_sa gamma epsilon nS V =
     (case evaluation_sweep \<pi> T R_sa gamma nS V of
        Inl e \<Rightarrow> Some (Inl e)
      | Inr V_new \<Rightarrow>
          (case np_max (abs_diff V_new V) of
             Inl e \<Rightarrow> Some (Inl e)
           | Inr m \<Rightarrow>
               if m < epsilon then Some (Inr V)
               else evaluation_loop \<pi> T R_sa gamma epsilon nS V_new))"

definition policy_evaluation ::
  "int list \<Rightarrow> tensor \<Rightarrow> matrix \<Rightarrow> real \<Rightarrow> real \<Rightarrow> (error + real list) option" where
  "policy_evaluation \<pi> T R_sa gamma epsilon =
     (let nS = fst (mshape R_sa)
      in evaluation_loop \<pi> T R_sa gamma epsilon nS (replicate nS 0))"

subsection \<open>policy\_improvement\<close>

text \<open>
  The double loop fills \<open>Q\<close> row by row; \<open>np.argmax(Q, axis=1)\<close> raises \<open>ValueError\<close>
  when the action axis is empty and otherwise takes the first maximum of each row.
\<close>

definition q_rows ::
  "real list \<Rightarrow> tensor \<Rightarrow> matrix \<Rightarrow> real \<Rightarrow> error + real list list" where
  "q_rows V T R_sa gamma =
     (case mshape R_sa of (nS, nA) \<Rightarrow>
        for_each (\<lambda>s. for_each (\<lambda>a. backup T R_sa gamma V nS (int s) (int a)) [0..<nA])
          [0..<nS])"

text \<open>The filled \<open>Q\<close> array; positions outside the shape stay at the initial zero.\<close>

definition q_table :: "nat \<times> nat \<Rightarrow> real list list \<Rightarrow> matrix" where
  "q_table shp rows =
     \<lparr> mshape = shp,
       melem = (\<lambda>s a. if s < fst shp \<and> a < snd shp then rows ! s ! a else 0) \<rparr>"

definition argmax_axis1 :: "nat \<Rightarrow> real list list \<Rightarrow> error + int list" where
  "argmax_axis1 nA rows =
     (if nA = 0 then Inl ValueError else Inr (map (\<lambda>row. int (argmax row)) rows))"

definition policy_improvement ::
  "real list \<Rightarrow> tensor \<Rightarrow> matrix \<Rightarrow> real \<Rightarrow> error + (matrix \<times> int list)" where
  "policy_improvement V T R_sa gamma =
     (case q_rows V T R_sa gamma of
        Inl e \<Rightarrow> Inl e
      | Inr rows \<Rightarrow>
          (case argmax_axis1 (snd (mshape R_sa)) rows of
             Inl e \<Rightarrow> Inl e
           | Inr pi_new \<Rightarrow>
               Inr (q_table (mshape R_sa) rows, pi_new)))"

subsection \<open>policy\_iteration\<close>

text \<open>
  The driver's \<open>while True\<close> loop with the current policy and the step counter as its
  state.  \<open>np.array_equal\<close> on two one-dimensional integer arrays is equality of lists.
\<close>

partial_function (option) iteration_loop ::
  "tensor \<Rightarrow> matrix \<Rightarrow> real \<Rightarrow> real \<Rightarrow> int list \<Rightarrow> nat
     \<Rightarrow> (error + (matrix \<times> int list \<times> nat)) option" where
  "iteration_loop T R_sa gamma epsilon \<pi> steps =
     (case policy_evaluation \<pi> T R_sa gamma epsilon of
        None \<Rightarrow> None
      | Some (Inl e) \<Rightarrow> Some (Inl e)
      | Some (Inr V) \<Rightarrow>
          (case policy_improvement V T R_sa gamma of
             Inl e \<Rightarrow> Some (Inl e)
           | Inr (Q, pi_new) \<Rightarrow>
               if \<pi> = pi_new then Some (Inr (Q, \<pi>, steps + 1))
               else iteration_loop T R_sa gamma epsilon pi_new (steps + 1)))"

type_synonym mdp = "int list \<times> int list \<times> tensor \<times> matrix \<times> real"

definition policy_iteration ::
  "matrix \<Rightarrow> int list \<Rightarrow> mdp \<Rightarrow> real \<Rightarrow> (error + (matrix \<times> int list \<times> nat)) option" where
  "policy_iteration Q \<pi> MDP epsilon =
     (case MDP of (S, A, T, R_sa, gamma) \<Rightarrow> iteration_loop T R_sa gamma epsilon \<pi> 0)"

subsection \<open>The agent wrapper\<close>

text \<open>
  The environment class is not part of the module; the agent only reads the sizes of
  its observation and action spaces and calls \<open>get_transition_matrix()\<close> and
  \<open>get_reward_per_action()\<close>, so an environment is the record of these four values.
\<close>

record mars_rover =
  observation_space_n :: nat
  action_space_n :: nat
  get_transition_matrix :: tensor
  get_reward_per_action :: matrix

text \<open>
  The fields of \<open>PolicyIteration\<close>; a field that \<open>__init__\<close> sets to \<open>None\<close> is an
  option.  The field \<open>R\<close>, which is set to \<open>None\<close> and never read or written again, is
  left out.  \<open>init_agent\<close> is \<open>__init__\<close> on an environment that is already unwrapped.
\<close>

record agent =
  self_env :: mars_rover
  self_seed :: int
  self_filename :: string
  self_n_obs :: nat
  self_n_actions :: nat
  self_S :: "int list option"
  self_A :: "int list option"
  self_T :: "tensor option"
  self_gamma :: real
  self_R_sa :: "matrix option"
  self_pi :: "int list option"
  self_Q :: "matrix option"
  self_policy_fitted :: bool
  self_steps :: nat

definition init_agent :: "mars_rover \<Rightarrow> real \<Rightarrow> int \<Rightarrow> string \<Rightarrow> agent" where
  "init_agent env gamma seed filename =
     \<lparr> self_env = env, self_seed = seed, self_filename = filename,
       self_n_obs = observation_space_n env, self_n_actions = action_space_n env,
       self_S = None, self_A = None, self_T = None, self_gamma = gamma,
       self_R_sa = None, self_pi = None, self_Q = None,
       self_policy_fitted = False, self_steps = 0 \<rparr>"

text \<open>The default \<open>epsilon = 1e-8\<close> of \<open>policy_iteration\<close>.\<close>

definition default_epsilon :: real where
  "default_epsilon = 1 / 10 ^ 8"

text \<open>
  \<open>update_agent\<close> returns the agent as the call leaves it together with the outcome:
  \<open>Inr ()\<close> for a normal return, \<open>Inl e\<close> when \<open>policy_iteration\<close> raised \<open>e\<close> (the
  assignments made before the call are then already in place).
\<close>

definition update_agent :: "agent \<Rightarrow> ((error + unit) \<times> agent) option" where
  "update_agent ag =
     (if \<not> self_policy_fitted ag then
        (let ag1 = ag\<lparr> self_S := Some (arange (self_n_obs ag)),
                        self_A := Some (arange (self_n_actions ag)),
                        self_T := Some (get_transition_matrix (self_env ag)),
                        self_R_sa := Some (get_reward_per_action (self_env ag)) \<rparr>;
             pi0 = replicate (self_n_obs ag) 0;
             Q0 = zeros2 (self_n_obs ag) (self_n_actions ag);
             ag2 = ag1\<lparr> self_pi := Some pi0, self_Q := Some Q0 \<rparr>
         in case policy_iteration Q0 pi0
                   (arange (self_n_obs ag), arange (self_n_actions ag),
                    get_transition_matrix (self_env ag),
                    get_reward_per_action (self_env ag), self_gamma ag)
                   default_epsilon of
              None \<Rightarrow> None
            | Some (Inl e) \<Rightarrow> Some (Inl e, ag2)
            | Some (Inr (Q, \<pi>, steps)) \<Rightarrow>
                Some (Inr (), ag2\<lparr> self_Q := Some Q, self_pi := Some \<pi>,
                                   self_steps := steps, self_policy_fitted := True \<rparr>))
      else Some (Inr (), ag))"

subsection \<open>Persistence\<close>

text \<open>
  The file system maps a file name to the array stored there.  \<open>np.array(self.pi)\<close> is
  an integer array when the policy is set and an object array when it is \<open>None\<close>;
  \<open>np.load\<close>, which is called without \<open>allow_pickle\<close>, refuses an object array.
  \<open>np.save\<close> appends \<open>.npy\<close> to a file name that does not end with it; \<open>np.load\<close>
  opens the name as given.  Warnings are collected in the order they are issued.
\<close>

datatype npy = IntArray "int list" | ObjectArray

record world =
  files :: "string \<Rightarrow> npy option"
  warned :: "string list"

definition endswith :: "string \<Rightarrow> string \<Rightarrow> bool" where
  "endswith s suf = (length suf \<le> length s \<and> drop (length s - length suf) s = suf)"

definition npy_name :: "string \<Rightarrow> string" where
  "npy_name file = (if \<not> endswith file ''.npy'' then file @ ''.npy'' else file)"

definition np_array :: "int list option \<Rightarrow> npy" where
  "np_array p = (case p of Some xs \<Rightarrow> IntArray xs | None \<Rightarrow> ObjectArray)"

definition np_save :: "string \<Rightarrow> npy \<Rightarrow> world \<Rightarrow> world" where
  "np_save file arr w = w\<lparr> files := (files w)(npy_name file \<mapsto> arr) \<rparr>"

definition np_load :: "string \<Rightarrow> world \<Rightarrow> error + int list" where
  "np_load file w =
     (case files w file of
        None \<Rightarrow> Inl FileNotFoundError
      | Some ObjectArray \<Rightarrow> Inl ValueError
      | Some (IntArray xs) \<Rightarrow> Inr xs)"

definition save :: "agent \<Rightarrow> world \<Rightarrow> agent \<times> world" where
  "save ag w =
     (if self_policy_fitted ag
      then (ag, np_save (self_filename ag) (np_array (self_pi ag)) w)
      else (ag, w\<lparr> warned :=
                     warned w @ [''Tried to save policy but policy is not fitted yet.''] \<rparr>))"

definition load :: "agent \<Rightarrow> world \<Rightarrow> (error + int list) \<times> agent" where
  "load ag w =
     (case np_load (self_filename ag) w of
        Inl e \<Rightarrow> (Inl e, ag)
      | Inr xs \<Rightarrow> (Inr xs, ag\<lparr> self_pi := Some xs, self_policy_fitted := True \<rparr>))"

section \<open>Specification-level notions\<close>

text \<open>
  The update formula as the specification writes it,
  \<open>\<Sum>s'. T[s,a,s'] * (R_sa[s,a] + gamma * V[s'])\<close>, free of any error handling, and the
  synchronous (Jacobi) update of a whole value function under a fixed policy built on
  it.  They are what the embedded loops are compared with.
\<close>

definition q_value :: "tensor \<Rightarrow> matrix \<Rightarrow> real \<Rightarrow> real list \<Rightarrow> nat \<Rightarrow> nat \<Rightarrow> nat \<Rightarrow> real" where
  "q_value T R_sa gamma V nS s a =
     (\<Sum>s' = 0..<nS. telem T s a s' * (melem R_sa s a + gamma * V ! s'))"

definition jacobi_update :: "int list \<Rightarrow> tensor \<Rightarrow> matrix \<Rightarrow> real \<Rightarrow> real list \<Rightarrow> real list" where
  "jacobi_update \<pi> T R_sa gamma V =
     map (\<lambda>s. q_value T R_sa gamma V (fst (mshape R_sa)) s (nat (\<pi> ! s)))
       [0..<fst (mshape R_sa)]"

text \<open>
  The validity conditions of the data model: the transition tensor has shape
  \<open>(nS, nA, nS)\<close> and the reward matrix shape \<open>(nS, nA)\<close>; every slice \<open>T[s,a,:]\<close> is
  a probability distribution; a policy holds one action index per state.
\<close>

definition valid_shapes :: "nat \<Rightarrow> nat \<Rightarrow> tensor \<Rightarrow> matrix \<Rightarrow> bool" where
  "valid_shapes nS nA T R_sa = (tshape T = (nS, nA, nS) \<and> mshape R_sa = (nS, nA))"

definition row_stochastic :: "tensor \<Rightarrow> bool" where
  "row_stochastic T =
     (case tshape T of (d0, d1, d2) \<Rightarrow>
        \<forall>s < d0. \<forall>a < d1.
          (\<forall>s' < d2. 0 \<le> telem T s a s') \<and> (\<Sum>s' = 0..<d2. telem T s a s') = 1)"

definition valid_policy :: "nat \<Rightarrow> nat \<Rightarrow> int list \<Rightarrow> bool" where
  "valid_policy nS nA \<pi> = (length \<pi> = nS \<and> (\<forall>a \<in> set \<pi>. 0 \<le> a \<and> a < int nA))"

text \<open>\<open>max_s |W[s] - V[s]| < e\<close> for two arrays of the same non-zero length.\<close>

definition max_change_below :: "real \<Rightarrow> real list \<Rightarrow> real list \<Rightarrow> bool" where
  "max_change_below e W V = (\<forall>s < length V. \<bar>W ! s - V ! s\<bar> < e)"

text \<open>
  One round of the driver, as the body of its loop computes it: evaluate the policy, then
  improve on the value function.  \<open>next_policy\<close> is the policy the driver continues
  with; where the round raises or does not return, there is no next policy and
  \<open>next_policy\<close> is the policy itself.
\<close>

definition improvement_round ::
  "tensor \<Rightarrow> matrix \<Rightarrow> real \<Rightarrow> real \<Rightarrow> int list \<Rightarrow> (error + (matrix \<times> int list)) option" where
  "improvement_round T R_sa gamma epsilon \<pi> =
     (case policy_evaluation \<pi> T R_sa gamma epsilon of
        None \<Rightarrow> None
      | Some (Inl e) \<Rightarrow> Some (Inl e)
      | Some (Inr V) \<Rightarrow> Some (policy_improvement V T R_sa gamma))"

definition next_policy :: "tensor \<Rightarrow> matrix \<Rightarrow> real \<Rightarrow> real \<Rightarrow> int list \<Rightarrow> int list" where
  "next_policy T R_sa gamma epsilon \<pi> =
     (case improvement_round T R_sa gamma epsilon \<pi> of
        Some (Inr (Q, pi_new)) \<Rightarrow> pi_new
      | _ \<Rightarrow> \<pi>)"

text \<open>
  What a finished run of the driver's loop looks like, \<open>k\<close> rounds after it was entered
  with policy \<open>\<pi>\<close> and counter \<open>steps\<close>: each of the first \<open>k\<close> rounds changed the
  policy, and the round after them either raised \<open>e\<close> (outcome \<open>Inl e\<close>) or returned the
  policy it was given (outcome \<open>Inr (Q, p, m)\<close>).
\<close>

definition run_shape ::
  "tensor \<Rightarrow> matrix \<Rightarrow> real \<Rightarrow> real \<Rightarrow> int list \<Rightarrow> nat
     \<Rightarrow> (error + (matrix \<times> int list \<times> nat)) \<Rightarrow> nat \<Rightarrow> bool" where
  "run_shape T R_sa gamma epsilon \<pi> steps y k =
     ((\<forall>j < k. next_policy T R_sa gamma epsilon ((next_policy T R_sa gamma epsilon ^^ j) \<pi>)
                 \<noteq> (next_policy T R_sa gamma epsilon ^^ j) \<pi>)
      \<and> (case y of
            Inl e \<Rightarrow> improvement_round T R_sa gamma epsilon
                       ((next_policy T R_sa gamma epsilon ^^ k) \<pi>) = Some (Inl e)
          | Inr (Q, p, m) \<Rightarrow>
              m = steps + k + 1 \<and> p = (next_policy T R_sa gamma epsilon ^^ k) \<pi>
              \<and> improvement_round T R_sa gamma epsilon p = Some (Inr (Q, p))))"

subsection \<open>Concrete inputs\<close>

text \<open>
  The two-state, two-action example of the specification: action 0 stays in place with
  reward 0, action 1 moves to state 1, with reward 1 from state 0.
\<close>

definition T_example :: tensor where
  "T_example = \<lparr> tshape = (2, 2, 2),
      telem = (\<lambda>s a s'. if a = 0 then (if s' = s then 1 else 0)
                          else (if s' = 1 then 1 else 0)) \<rparr>"

definition R_example :: matrix where
  "R_example = \<lparr> mshape = (2, 2), melem = (\<lambda>s a. if s = 0 \<and> a = 1 then 1 else 0) \<rparr>"



text \<open>
  Four states, two actions, \<open>gamma = 1/2\<close>.  From state 0, action 0 leads to state 1
  and action 1 (reward \<open>7/8\<close>) to state 2; state 1 pays 3 and leads to the absorbing
  state 3 (reward 0); state 2 pays 1 and loops.  All rewards are in units of the default
  \<open>epsilon = 1e-8\<close>.  Every slice \<open>T[s,a,:]\<close> is a point distribution.
\<close>

definition T_cycle :: tensor where
  "T_cycle = \<lparr> tshape = (4, 2, 4),
      telem = (\<lambda>s a s'. if s = 0 then (if a = 0 then (if s' = 1 then 1 else 0)
                                       else (if s' = 2 then 1 else 0))
                          else if s = 1 then (if s' = 3 then 1 else 0)
                          else if s = 2 then (if s' = 2 then 1 else 0)
                          else (if s' = 3 then 1 else 0)) \<rparr>"

definition R_cycle :: matrix where
  "R_cycle = \<lparr> mshape = (4, 2),
      melem = (\<lambda>s a. if s = 0 then (if a = 0 then 0 else 7 / (8 * 10 ^ 8))
                      else if s = 1 then 3 / 10 ^ 8
                      else if s = 2 then 1 / 10 ^ 8
                      else 0) \<rparr>"

text \<open>
  An environment for the two-state example and the agent \<open>PolicyIteration(env)\<close> built on
  it with the default arguments; \<open>fitted_example\<close> is that agent after \<open>update_agent\<close>.
\<close>

definition env_example :: mars_rover where
  "env_example = \<lparr> observation_space_n = 2, action_space_n = 2,
      get_transition_matrix = T_example, get_reward_per_action = R_example \<rparr>"

definition agent_example :: agent where
  "agent_example = init_agent env_example (9 / 10) 333 ''policy.npy''"

definition fitted_example :: agent where
  "fitted_example = agent_example
     \<lparr> self_S := Some [0, 1], self_A := Some [0, 1], self_T := Some T_example,
       self_R_sa := Some R_example, self_pi := Some [1, 0],
       self_Q := Some (q_table (2, 2) [[9 / 10, 1], [0, 0]]),
       self_policy_fitted := True, self_steps := 2 \<rparr>"

text \<open>
  A one-state environment whose only slice \<open>T[0,0,:]\<close> sums to \<open>1/2\<close>, and its agent.
\<close>

definition T_half :: tensor where
  "T_half = \<lparr> tshape = (1, 1, 1), telem = (\<lambda>_ _ _. 1 / 2) \<rparr>"

definition R_zero :: matrix where
  "R_zero = \<lparr> mshape = (1, 1), melem = (\<lambda>_ _. 0) \<rparr>"

definition agent_half :: agent where
  "agent_half = init_agent
     \<lparr> observation_space_n = 1, action_space_n = 1,
       get_transition_matrix = T_half, get_reward_per_action = R_zero \<rparr>
     (9 / 10) 333 ''policy.npy''"

text \<open>
  File systems: an empty one, and one whose \<open>policy.npy\<close> holds an array of length 3.
  \<open>agent_noext\<close> is the fitted example agent with the file name \<open>policy\<close>.
\<close>

definition world_empty :: world where
  "world_empty = \<lparr> files = (\<lambda>_. None), warned = [] \<rparr>"

definition world_mismatch :: world where
  "world_mismatch = \<lparr> files = (\<lambda>_. None)(''policy.npy'' \<mapsto> IntArray [0, 1, 0]), warned = [] \<rparr>"

definition agent_noext :: agent where
  "agent_noext = fitted_example \<lparr> self_filename := ''policy'' \<rparr>"

text \<open>
  An environment with two states whose transition tensor has the shape \<open>(1, 1, 1)\<close>.
\<close>

definition R_two_states :: matrix where
  "R_two_states = \<lparr> mshape = (2, 1), melem = (\<lambda>_ _. 0) \<rparr>"

definition agent_short :: agent where
  "agent_short = init_agent
     \<lparr> observation_space_n = 2, action_space_n = 1,
       get_transition_matrix = T_half, get_reward_per_action = R_two_states \<rparr>
     (9 / 10) 333 ''policy.npy''"

section \<open>Evaluating the embedding on concrete inputs\<close>

lemmas sweep_simps = evaluation_sweep_def backup_def backup_term_def tget_def mget_def vget_def
  axis_index_def abs_diff_def

lemmas improvement_simps = policy_improvement_def q_rows_def argmax_axis1_def backup_def
  backup_term_def tget_def mget_def vget_def axis_index_def

lemma upt_2: "[0..<2] = [0, 1]"
  by (simp add: numeral_2_eq_2)

lemma upt_4: "[0..<4] = [0, 1, 2, 3]"
  by (simp add: upt_rec)

lemma replicate_4: "replicate 4 x = [x, x, x, x]"
  by (simp add: numeral_eq_Suc)

section \<open>Policy evaluation\<close>

lemma axis_index_nat: "i < n \<Longrightarrow> axis_index n (int i) = Inr i"
  by (simp add: axis_index_def)

lemma vget_nat: "i < length v \<Longrightarrow> vget v (int i) = Inr (v ! i)"
  by (simp add: vget_def axis_index_nat)

lemma mget_nat:
  "mshape M = (d0, d1) \<Longrightarrow> s < d0 \<Longrightarrow> a < d1 \<Longrightarrow> mget M (int s) (int a) = Inr (melem M s a)"
  by (simp add: mget_def axis_index_nat)

lemma tget_nat:
  "tshape T = (d0, d1, d2) \<Longrightarrow> s < d0 \<Longrightarrow> a < d1 \<Longrightarrow> k < d2
     \<Longrightarrow> tget T (int s) (int a) (int k) = Inr (telem T s a k)"
  by (simp add: tget_def axis_index_nat)

lemma py_sum_Inr:
  "(\<And>i. i \<in> set xs \<Longrightarrow> f i = Inr (g i)) \<Longrightarrow> py_sum f xs acc = Inr (acc + sum_list (map g xs))"
  by (induction xs arbitrary: acc) (simp_all add: add.assoc)

lemma for_each_Inr:
  "(\<And>i. i \<in> set xs \<Longrightarrow> f i = Inr (g i)) \<Longrightarrow> for_each f xs = Inr (map g xs)"
  by (induction xs) simp_all

lemma backup_nat:
  assumes "valid_shapes nS nA T R_sa" "s < nS" "a < nA" "nS \<le> length V"
  shows "backup T R_sa gamma V nS (int s) (int a) = Inr (q_value T R_sa gamma V nS s a)"
proof -
  have "\<And>k. k \<in> set [0..<nS] \<Longrightarrow>
      backup_term T R_sa gamma V (int s) (int a) k
        = Inr (telem T s a k * (melem R_sa s a + gamma * V ! k))"
    using assms by (simp add: backup_term_def valid_shapes_def tget_nat mget_nat vget_nat)
  then have "py_sum (backup_term T R_sa gamma V (int s) (int a)) [0..<nS] 0
      = Inr (0 + sum_list (map (\<lambda>k. telem T s a k * (melem R_sa s a + gamma * V ! k)) [0..<nS]))"
    by (rule py_sum_Inr)
  then show ?thesis
    by (simp add: backup_def q_value_def interv_sum_list_conv_sum_set_nat)
qed

lemma evaluation_sweep_jacobi:
  assumes "valid_shapes nS nA T R_sa" "valid_policy nS nA \<pi>" "length V = nS"
  shows "evaluation_sweep \<pi> T R_sa gamma nS V = Inr (jacobi_update \<pi> T R_sa gamma V)"
proof -
  have nS: "fst (mshape R_sa) = nS" using assms(1) by (simp add: valid_shapes_def)
  have "\<And>s. s \<in> set [0..<nS] \<Longrightarrow>
      (case vget \<pi> (int s) of Inl e \<Rightarrow> Inl e | Inr a \<Rightarrow> backup T R_sa gamma V nS (int s) a)
        = Inr (q_value T R_sa gamma V nS s (nat (\<pi> ! s)))"
  proof -
    fix s assume "s \<in> set [0..<nS]"
    then have s: "s < nS" by simp
    then have "\<pi> ! s \<in> set \<pi>" using assms(2) by (simp add: valid_policy_def)
    then have a: "0 \<le> \<pi> ! s" "nat (\<pi> ! s) < nA"
      using assms(2) by (auto simp: valid_policy_def)
    have "vget \<pi> (int s) = Inr (\<pi> ! s)" using s assms(2) by (simp add: vget_nat valid_policy_def)
    moreover have "backup T R_sa gamma V nS (int s) (int (nat (\<pi> ! s)))
        = Inr (q_value T R_sa gamma V nS s (nat (\<pi> ! s)))"
      using assms s a by (intro backup_nat) simp_all
    ultimately show "(case vget \<pi> (int s) of Inl e \<Rightarrow> Inl e | Inr a \<Rightarrow> backup T R_sa gamma V nS (int s) a)
        = Inr (q_value T R_sa gamma V nS s (nat (\<pi> ! s)))"
      using a by simp
  qed
  then have "for_each (\<lambda>s. case vget \<pi> (int s) of Inl e \<Rightarrow> Inl e
                   | Inr a \<Rightarrow> backup T R_sa gamma V nS (int s) a) [0..<nS]
      = Inr (map (\<lambda>s. q_value T R_sa gamma V nS s (nat (\<pi> ! s))) [0..<nS])"
    by (rule for_each_Inr)
  then show ?thesis by (simp add: evaluation_sweep_def jacobi_update_def nS)
qed

lemma length_jacobi_update: "length (jacobi_update \<pi> T R_sa gamma V) = fst (mshape R_sa)"
  by (simp add: jacobi_update_def)

lemma np_max_less_iff:
  "xs \<noteq> [] \<Longrightarrow> \<exists>m. np_max xs = Inr m \<and> (m < e \<longleftrightarrow> (\<forall>x \<in> set xs. x < e))"
proof (cases xs)
  case Nil then show "xs \<noteq> [] \<Longrightarrow> ?thesis" by simp
next
  case (Cons x ys)
  have "fold max ys x = Max (set (x # ys))" by (simp only: Max.set_eq_fold)
  then show ?thesis using Cons by simp
qed

lemma abs_diff_less_iff:
  "length W = length V \<Longrightarrow>
     (\<forall>x \<in> set (abs_diff W V). x < e) \<longleftrightarrow> (\<forall>s < length V. \<bar>W ! s - V ! s\<bar> < e)"
  by (auto simp: abs_diff_def set_zip)

lemma loop_body_step:
  assumes "evaluation_sweep \<pi> T R_sa gamma nS V = Inr W" "length W = length V" "V \<noteq> []"
  shows "(case evaluation_sweep \<pi> T R_sa gamma nS V of
            Inl e \<Rightarrow> Some (Inl e)
          | Inr V_new \<Rightarrow>
              (case np_max (abs_diff V_new V) of
                 Inl e \<Rightarrow> Some (Inl e)
               | Inr m \<Rightarrow> if m < epsilon then Some (Inr V) else c V_new))
         = (if max_change_below epsilon W V then Some (Inr V) else c W)"
proof -
  have ne: "abs_diff W V \<noteq> []" using assms(2,3) by (cases W; cases V) (simp_all add: abs_diff_def)
  obtain m where m: "np_max (abs_diff W V) = Inr m" "m < epsilon \<longleftrightarrow> (\<forall>x \<in> set (abs_diff W V). x < epsilon)"
    using np_max_less_iff[OF ne] by blast
  have "m < epsilon \<longleftrightarrow> max_change_below epsilon W V"
    using m(2) abs_diff_less_iff[OF assms(2)] by (simp add: max_change_below_def)
  then show ?thesis
    by (simp add: assms(1) m(1))
qed

lemma evaluation_loop_step:
  assumes "evaluation_sweep \<pi> T R_sa gamma nS V = Inr W" "length W = length V" "V \<noteq> []"
  shows "evaluation_loop \<pi> T R_sa gamma epsilon nS V =
           (if max_change_below epsilon W V then Some (Inr V)
            else evaluation_loop \<pi> T R_sa gamma epsilon nS W)"
  by (subst evaluation_loop.simps) (rule loop_body_step[OF assms])

lemma q_value_diff:
  "q_value T R_sa gamma V nS s a - q_value T R_sa gamma W nS s a
     = (\<Sum>s' = 0..<nS. telem T s a s' * (gamma * (V ! s' - W ! s')))"
  by (simp add: q_value_def sum_subtractf [symmetric] algebra_simps)

lemma q_value_contraction:
  assumes nonneg: "\<And>s'. s' < nS \<Longrightarrow> 0 \<le> telem T s a s'"
    and row: "(\<Sum>s' = 0..<nS. telem T s a s') = 1"
    and gamma: "0 \<le> gamma"
    and D: "\<And>s'. s' < nS \<Longrightarrow> \<bar>V ! s' - W ! s'\<bar> \<le> D"
  shows "\<bar>q_value T R_sa gamma V nS s a - q_value T R_sa gamma W nS s a\<bar> \<le> gamma * D"
proof -
  have "\<bar>\<Sum>s' = 0..<nS. telem T s a s' * (gamma * (V ! s' - W ! s'))\<bar>
      \<le> (\<Sum>s' = 0..<nS. \<bar>telem T s a s' * (gamma * (V ! s' - W ! s'))\<bar>)"
    by (rule sum_abs)
  also have "\<dots> \<le> (\<Sum>s' = 0..<nS. telem T s a s' * (gamma * D))"
  proof (rule sum_mono)
    fix k assume "k \<in> {0..<nS}"
    then have k: "k < nS" by simp
    have "\<bar>telem T s a k * (gamma * (V ! k - W ! k))\<bar>
        = telem T s a k * (gamma * \<bar>V ! k - W ! k\<bar>)"
      using nonneg[OF k] gamma by (simp add: abs_mult)
    also have "\<dots> \<le> telem T s a k * (gamma * D)"
      using nonneg[OF k] gamma D[OF k] by (intro mult_left_mono) simp_all
    finally show "\<bar>telem T s a k * (gamma * (V ! k - W ! k))\<bar> \<le> telem T s a k * (gamma * D)" .
  qed
  also have "\<dots> = (\<Sum>s' = 0..<nS. telem T s a s') * (gamma * D)"
    by (simp add: sum_distrib_right)
  also have "\<dots> = gamma * D" by (simp add: row)
  finally show ?thesis by (simp only: q_value_diff)
qed

lemma jacobi_update_nth:
  "mshape R_sa = (nS, nA) \<Longrightarrow> s < nS \<Longrightarrow>
     jacobi_update \<pi> T R_sa gamma V ! s = q_value T R_sa gamma V nS s (nat (\<pi> ! s))"
  by (simp add: jacobi_update_def)

lemma jacobi_update_contraction:
  assumes sh: "valid_shapes nS nA T R_sa" and st: "row_stochastic T"
    and pol: "valid_policy nS nA \<pi>" and gamma: "0 \<le> gamma"
    and D: "\<And>s'. s' < nS \<Longrightarrow> \<bar>V ! s' - W ! s'\<bar> \<le> D" and s: "s < nS"
  shows "\<bar>jacobi_update \<pi> T R_sa gamma V ! s - jacobi_update \<pi> T R_sa gamma W ! s\<bar> \<le> gamma * D"
proof -
  have "\<pi> ! s \<in> set \<pi>" using pol s by (simp add: valid_policy_def)
  then have a: "nat (\<pi> ! s) < nA" using pol by (auto simp: valid_policy_def)
  have T: "tshape T = (nS, nA, nS)" and R: "mshape R_sa = (nS, nA)"
    using sh by (simp_all add: valid_shapes_def)
  have nonneg: "\<And>s'. s' < nS \<Longrightarrow> 0 \<le> telem T s (nat (\<pi> ! s)) s'"
    and row: "(\<Sum>s' = 0..<nS. telem T s (nat (\<pi> ! s)) s') = 1"
    using st T s a by (simp_all add: row_stochastic_def)
  show ?thesis
    using q_value_contraction[of nS T s "nat (\<pi> ! s)" gamma V W D R_sa, OF nonneg row gamma D]
    by (simp add: jacobi_update_nth[OF R s])
qed

lemma length_funpow_jacobi:
  "length V = fst (mshape R_sa) \<Longrightarrow>
     length ((jacobi_update \<pi> T R_sa gamma ^^ k) V) = fst (mshape R_sa)"
  by (induction k) (simp_all add: length_jacobi_update)

lemma iterates_geometric:
  assumes sh: "valid_shapes nS nA T R_sa" and st: "row_stochastic T"
    and pol: "valid_policy nS nA \<pi>" and gamma: "0 \<le> gamma"
    and D: "\<And>s. s < nS \<Longrightarrow> \<bar>jacobi_update \<pi> T R_sa gamma V ! s - V ! s\<bar> \<le> D"
    and s: "s < nS"
  shows "\<bar>(jacobi_update \<pi> T R_sa gamma ^^ Suc k) V ! s
            - (jacobi_update \<pi> T R_sa gamma ^^ k) V ! s\<bar> \<le> gamma ^ k * D"
  using s
proof (induction k arbitrary: s)
  case 0
  then show ?case using D by simp
next
  case (Suc k)
  have "\<bar>jacobi_update \<pi> T R_sa gamma ((jacobi_update \<pi> T R_sa gamma ^^ Suc k) V) ! s
        - jacobi_update \<pi> T R_sa gamma ((jacobi_update \<pi> T R_sa gamma ^^ k) V) ! s\<bar>
      \<le> gamma * (gamma ^ k * D)"
    using Suc.IH by (intro jacobi_update_contraction[OF sh st pol gamma _ Suc.prems]) 
  then show ?case by (simp add: mult.assoc)
qed

lemma geometric_below:
  fixes gamma D epsilon :: real
  assumes "0 \<le> gamma" "gamma < 1" "0 < epsilon" "0 \<le> D"
  shows "\<exists>k. gamma ^ k * D < epsilon"
proof -
  have "0 < epsilon / (D + 1)" using assms by simp
  then obtain k where k: "gamma ^ k < epsilon / (D + 1)"
    using real_arch_pow_inv[of "epsilon / (D + 1)" gamma] assms(2) by blast
  have "gamma ^ k * D \<le> gamma ^ k * (D + 1)"
    using assms(1) by (intro mult_left_mono) simp_all
  also have "\<dots> < epsilon" using k assms(4) by (simp add: pos_less_divide_eq)
  finally show ?thesis by blast
qed

lemma evaluation_loop_valid_step:
  assumes sh: "valid_shapes nS nA T R_sa" and pol: "valid_policy nS nA \<pi>" and nS: "0 < nS"
    and len: "length V = nS"
  shows "evaluation_loop \<pi> T R_sa gamma epsilon nS V =
           (if max_change_below epsilon (jacobi_update \<pi> T R_sa gamma V) V then Some (Inr V)
            else evaluation_loop \<pi> T R_sa gamma epsilon nS (jacobi_update \<pi> T R_sa gamma V))"
proof -
  have R: "fst (mshape R_sa) = nS" using sh by (simp add: valid_shapes_def)
  have "evaluation_sweep \<pi> T R_sa gamma nS V = Inr (jacobi_update \<pi> T R_sa gamma V)"
    using sh pol len by (rule evaluation_sweep_jacobi)
  moreover have "length (jacobi_update \<pi> T R_sa gamma V) = length V"
    by (simp add: length_jacobi_update R len)
  moreover have "V \<noteq> []" using nS len by auto
  ultimately show ?thesis by (rule evaluation_loop_step)
qed

lemma evaluation_loop_reaches:
  assumes sh: "valid_shapes nS nA T R_sa" and pol: "valid_policy nS nA \<pi>" and nS: "0 < nS"
  shows "length V = nS \<Longrightarrow>
     max_change_below epsilon ((jacobi_update \<pi> T R_sa gamma ^^ Suc k) V)
        ((jacobi_update \<pi> T R_sa gamma ^^ k) V) \<Longrightarrow>
     \<exists>j\<le>k. evaluation_loop \<pi> T R_sa gamma epsilon nS V
              = Some (Inr ((jacobi_update \<pi> T R_sa gamma ^^ j) V))
         \<and> max_change_below epsilon ((jacobi_update \<pi> T R_sa gamma ^^ Suc j) V)
              ((jacobi_update \<pi> T R_sa gamma ^^ j) V)
         \<and> (\<forall>i<j. \<not> max_change_below epsilon ((jacobi_update \<pi> T R_sa gamma ^^ Suc i) V)
              ((jacobi_update \<pi> T R_sa gamma ^^ i) V))"
proof (induction k arbitrary: V)
  case 0
  have "evaluation_loop \<pi> T R_sa gamma epsilon nS V = Some (Inr V)"
    using evaluation_loop_valid_step[OF sh pol nS "0.prems"(1)] "0.prems"(2) by simp
  then show ?case using "0.prems"(2) by simp
next
  case (Suc k)
  let ?B = "jacobi_update \<pi> T R_sa gamma"
  have R: "fst (mshape R_sa) = nS" using sh by (simp add: valid_shapes_def)
  have step: "evaluation_loop \<pi> T R_sa gamma epsilon nS V =
           (if max_change_below epsilon (?B V) V then Some (Inr V)
            else evaluation_loop \<pi> T R_sa gamma epsilon nS (?B V))"
    using sh pol nS Suc.prems(1) by (rule evaluation_loop_valid_step)
  show ?case
  proof (cases "max_change_below epsilon (?B V) V")
    case True
    then show ?thesis using step by (intro exI[of _ 0]) simp
  next
    case False
    have len: "length (?B V) = nS" by (simp add: length_jacobi_update R)
    have shift: "\<And>n. (?B ^^ Suc n) V = (?B ^^ n) (?B V)"
      by (simp add: funpow_swap1)
    have "max_change_below epsilon ((?B ^^ Suc k) (?B V)) ((?B ^^ k) (?B V))"
      using Suc.prems(2) by (simp only: shift)
    from Suc.IH[OF len this] obtain j where j: "j \<le> k"
      "evaluation_loop \<pi> T R_sa gamma epsilon nS (?B V) = Some (Inr ((?B ^^ j) (?B V)))"
      "max_change_below epsilon ((?B ^^ Suc j) (?B V)) ((?B ^^ j) (?B V))"
      "\<forall>i<j. \<not> max_change_below epsilon ((?B ^^ Suc i) (?B V)) ((?B ^^ i) (?B V))"
      by blast
    have a: "evaluation_loop \<pi> T R_sa gamma epsilon nS V = Some (Inr ((?B ^^ Suc j) V))"
      using step False j(2) by (simp only: shift if_False)
    have b: "max_change_below epsilon ((?B ^^ Suc (Suc j)) V) ((?B ^^ Suc j) V)"
      using j(3) by (simp only: shift)
    have c: "\<not> max_change_below epsilon ((?B ^^ Suc i) V) ((?B ^^ i) V)" if "i < Suc j" for i
    proof (cases i)
      case 0 then show ?thesis using False by simp
    next
      case (Suc i')
      then have "i' < j" using that by simp
      then have "\<not> max_change_below epsilon ((?B ^^ Suc i') (?B V)) ((?B ^^ i') (?B V))"
        using j(4) by blast
      then show ?thesis unfolding Suc by (simp only: shift not_False_eq_True)
    qed
    show ?thesis using a b c j(1) by (intro exI[of _ "Suc j"]) blast
  qed
qed

lemma evaluation_loop_returns:
  assumes sh: "valid_shapes nS nA T R_sa" and pol: "valid_policy nS nA \<pi>" and nS: "0 < nS"
    and ret: "evaluation_loop \<pi> T R_sa gamma epsilon nS V = Some y" and len: "length V = nS"
  shows "\<exists>k. y = Inr ((jacobi_update \<pi> T R_sa gamma ^^ k) V)
           \<and> max_change_below epsilon ((jacobi_update \<pi> T R_sa gamma ^^ Suc k) V)
                ((jacobi_update \<pi> T R_sa gamma ^^ k) V)"
proof -
  let ?P = "\<lambda>\<pi>' T' R' g e n V y.
      \<pi>' = \<pi> \<and> T' = T \<and> R' = R_sa \<and> g = gamma \<and> e = epsilon \<and> n = nS \<and> length V = nS \<longrightarrow>
      (\<exists>k. y = Inr ((jacobi_update \<pi> T R_sa gamma ^^ k) V)
           \<and> max_change_below epsilon ((jacobi_update \<pi> T R_sa gamma ^^ Suc k) V)
                ((jacobi_update \<pi> T R_sa gamma ^^ k) V))"
  have "?P \<pi> T R_sa gamma epsilon nS V y"
  proof (rule evaluation_loop.raw_induct[where P = ?P, OF _ ret], intro impI, elim conjE)
    fix f \<pi>' T' R' g e n U z
    assume IH: "\<And>T R g e n V b y. f T R g e n V b = Some y \<Longrightarrow> ?P T R g e n V b y"
      and body: "(case evaluation_sweep \<pi>' T' R' g n U of Inl e \<Rightarrow> Some (Inl e)
          | Inr V_new \<Rightarrow> (case np_max (abs_diff V_new U) of Inl e \<Rightarrow> Some (Inl e)
               | Inr m \<Rightarrow> if m < e then Some (Inr U) else f \<pi>' T' R' g e n V_new)) = Some z"
      and eqs: "\<pi>' = \<pi>" "T' = T" "R' = R_sa" "g = gamma" "e = epsilon" "n = nS" "length U = nS"
    let ?B = "jacobi_update \<pi> T R_sa gamma"
    have R: "fst (mshape R_sa) = nS" using sh by (simp add: valid_shapes_def)
    have lenB: "length (?B U) = nS" by (simp add: length_jacobi_update R)
    have sweep: "evaluation_sweep \<pi> T R_sa gamma nS U = Inr (?B U)"
      using sh pol eqs(7) by (rule evaluation_sweep_jacobi)
    have "U \<noteq> []" using nS eqs(7) by auto
    from loop_body_step[OF sweep _ this, of epsilon "f \<pi> T R_sa gamma epsilon nS"]
      body[unfolded eqs(1-6)]
    have step: "(if max_change_below epsilon (?B U) U then Some (Inr U)
                 else f \<pi> T R_sa gamma epsilon nS (?B U)) = Some z"
      by (simp add: eqs(7) lenB)
    show "\<exists>k. z = Inr ((?B ^^ k) U) \<and> max_change_below epsilon ((?B ^^ Suc k) U) ((?B ^^ k) U)"
    proof (cases "max_change_below epsilon (?B U) U")
      case True
      then show ?thesis using step by (intro exI[of _ 0]) auto
    next
      case False
      then have "f \<pi> T R_sa gamma epsilon nS (?B U) = Some z" using step by simp
      from IH[OF this] lenB obtain k where k: "z = Inr ((?B ^^ k) (?B U))"
        "max_change_below epsilon ((?B ^^ Suc k) (?B U)) ((?B ^^ k) (?B U))"
        by blast
      have shift: "\<And>n. (?B ^^ Suc n) U = (?B ^^ n) (?B U)"
        by (simp add: funpow_swap1)
      show ?thesis using k by (intro exI[of _ "Suc k"]) (simp only: shift simp_thms)
    qed
  qed
  then show ?thesis using len by simp
qed

lemma evaluation_loop_returns_test:
  assumes ret: "evaluation_loop \<pi> T R_sa gamma epsilon nS V0 = Some (Inr V)"
  shows "\<exists>V_new m. evaluation_sweep \<pi> T R_sa gamma nS V = Inr V_new
           \<and> np_max (abs_diff V_new V) = Inr m \<and> m < epsilon"
proof -
  let ?P = "\<lambda>\<pi> T R_sa gamma epsilon nS (V0 :: real list) y.
      \<forall>V. y = (Inr V :: error + real list) \<longrightarrow> (\<exists>V_new m. evaluation_sweep \<pi> T R_sa gamma nS V = Inr V_new
           \<and> np_max (abs_diff V_new V) = Inr m \<and> m < epsilon)"
  have "?P \<pi> T R_sa gamma epsilon nS V0 (Inr V)"
    by (rule evaluation_loop.raw_induct[where P = ?P, OF _ ret])
       (auto split: sum.splits if_splits)
  then show ?thesis by simp
qed


lemma less_2_cases: "(s::nat) < 2 \<longleftrightarrow> s = 0 \<or> s = 1"
  by auto

lemma row_stochastic_example: "row_stochastic T_example"
  by (auto simp: row_stochastic_def T_example_def less_2_cases numeral_2_eq_2)

lemma valid_policy_zero: "valid_policy 2 2 [0, 0]"
  by (simp add: valid_policy_def)

text \<open>With no state at all, \<open>np.max\<close> of the empty difference raises in the first pass.\<close>

lemma policy_evaluation_no_states:
  "fst (mshape R_sa) = 0 \<Longrightarrow> policy_evaluation \<pi> T R_sa gamma epsilon = Some (Inl ValueError)"
  unfolding policy_evaluation_def Let_def
  by (subst evaluation_loop.simps) (simp add: evaluation_sweep_def abs_diff_def)

text \<open>
  Exact arithmetic.  For arrays of valid shapes with at least one state, every
  \<open>T[s,a,:]\<close> a probability distribution, a valid policy, \<open>0 \<le> gamma < 1\<close> and
  \<open>epsilon > 0\<close>, every pass of the inner loop computes the synchronous update
  \<open>jacobi_update\<close> of the previous \<open>V\<close>, the update is a contraction with modulus \<open>gamma\<close>
  in the maximum norm, and so the loop of the embedding terminates with an iterate whose
  next update moves every state by less than \<open>epsilon\<close>.  This is a fact about the
  real-number embedding only.  It does not carry over to the float64 program: there the
  rounded iterates can keep alternating with a change that stays at or above \<open>epsilon\<close>,
  or overflow to \<open>inf\<close> and \<open>nan\<close>, and the loop then never reaches its \<open>break\<close>.
\<close>

lemma policy_evaluation_converges_exact:
  assumes sh: "valid_shapes nS nA T R_sa" and st: "row_stochastic T"
    and pol: "valid_policy nS nA \<pi>" and nS: "0 < nS"
    and gamma: "0 \<le> gamma" "gamma < 1" and eps: "0 < epsilon"
  shows "(\<forall>V. length V = nS \<longrightarrow>
            evaluation_sweep \<pi> T R_sa gamma nS V = Inr (jacobi_update \<pi> T R_sa gamma V))
       \<and> (\<exists>k. policy_evaluation \<pi> T R_sa gamma epsilon
                = Some (Inr ((jacobi_update \<pi> T R_sa gamma ^^ k) (replicate nS 0)))
            \<and> (\<forall>s < nS. \<bar>jacobi_update \<pi> T R_sa gamma
                              ((jacobi_update \<pi> T R_sa gamma ^^ k) (replicate nS 0)) ! s
                           - (jacobi_update \<pi> T R_sa gamma ^^ k) (replicate nS 0) ! s\<bar> < epsilon))"
proof (intro conjI allI impI)
  fix V :: "real list" assume "length V = nS"
  with sh pol show "evaluation_sweep \<pi> T R_sa gamma nS V = Inr (jacobi_update \<pi> T R_sa gamma V)"
    by (rule evaluation_sweep_jacobi)
next
  let ?B = "jacobi_update \<pi> T R_sa gamma"
  let ?Z = "replicate nS (0::real)"
  have R: "fst (mshape R_sa) = nS" using sh by (simp add: valid_shapes_def)
  have lenZ: "length ?Z = nS" by simp
  have len: "\<And>k. length ((?B ^^ k) ?Z) = nS"
    using length_funpow_jacobi[where V = ?Z and R_sa = R_sa] by (simp add: R)
  define D where "D = (\<Sum>s = 0..<nS. \<bar>?B ?Z ! s - ?Z ! s\<bar>)"
  have D0: "0 \<le> D" unfolding D_def by (rule sum_nonneg) simp
  have Dle: "\<bar>?B ?Z ! s - ?Z ! s\<bar> \<le> D" if "s < nS" for s
    unfolding D_def using that
    by (intro member_le_sum[of s "{0..<nS}" "\<lambda>s. \<bar>?B ?Z ! s - ?Z ! s\<bar>"]) simp_all
  obtain k where k: "gamma ^ k * D < epsilon"
    using geometric_below[OF gamma eps D0] by blast
  have "max_change_below epsilon ((?B ^^ Suc k) ?Z) ((?B ^^ k) ?Z)"
    unfolding max_change_below_def
  proof (intro allI impI)
    fix s assume "s < length ((?B ^^ k) ?Z)"
    then have s: "s < nS" by (simp only: len)
    have "\<bar>(?B ^^ Suc k) ?Z ! s - (?B ^^ k) ?Z ! s\<bar> \<le> gamma ^ k * D"
      using sh st pol gamma(1) Dle s by (rule iterates_geometric)
    then show "\<bar>(?B ^^ Suc k) ?Z ! s - (?B ^^ k) ?Z ! s\<bar> < epsilon" using k by linarith
  qed
  from evaluation_loop_reaches[OF sh pol nS lenZ this]
  obtain j where j: "evaluation_loop \<pi> T R_sa gamma epsilon nS ?Z = Some (Inr ((?B ^^ j) ?Z))"
    "max_change_below epsilon ((?B ^^ Suc j) ?Z) ((?B ^^ j) ?Z)"
    by blast
  have "policy_evaluation \<pi> T R_sa gamma epsilon = Some (Inr ((?B ^^ j) ?Z))"
    using j(1) by (simp add: policy_evaluation_def R)
  moreover have "\<forall>s < nS. \<bar>?B ((?B ^^ j) ?Z) ! s - (?B ^^ j) ?Z ! s\<bar> < epsilon"
    using j(2) by (simp add: max_change_below_def len)
  ultimately show "\<exists>k. policy_evaluation \<pi> T R_sa gamma epsilon = Some (Inr ((?B ^^ k) ?Z))
            \<and> (\<forall>s < nS. \<bar>?B ((?B ^^ k) ?Z) ! s - (?B ^^ k) ?Z ! s\<bar> < epsilon)"
    by blast
qed








lemma policy_evaluation_valid_result:
  assumes sh: "valid_shapes nS nA T R_sa" and pol: "valid_policy nS nA \<pi>" and nS: "0 < nS"
  shows "policy_evaluation \<pi> T R_sa gamma epsilon = None
       \<or> (\<exists>k. policy_evaluation \<pi> T R_sa gamma epsilon
                 = Some (Inr ((jacobi_update \<pi> T R_sa gamma ^^ k) (replicate nS 0)))
             \<and> max_change_below epsilon
                 (jacobi_update \<pi> T R_sa gamma
                    ((jacobi_update \<pi> T R_sa gamma ^^ k) (replicate nS 0)))
                 ((jacobi_update \<pi> T R_sa gamma ^^ k) (replicate nS 0)))"
proof (cases "policy_evaluation \<pi> T R_sa gamma epsilon")
  case None
  then show ?thesis by simp
next
  case (Some y)
  have R: "fst (mshape R_sa) = nS" using sh by (simp add: valid_shapes_def)
  have "evaluation_loop \<pi> T R_sa gamma epsilon nS (replicate nS 0) = Some y"
    using Some by (simp add: policy_evaluation_def R)
  from evaluation_loop_returns[OF sh pol nS this] Some show ?thesis by auto
qed





section \<open>Policy improvement\<close>

lemma argmax_from_spec:
  "(argmax_from bi bv i xs = bi \<and> (\<forall>x \<in> set xs. x \<le> bv))
   \<or> (i \<le> argmax_from bi bv i xs \<and> argmax_from bi bv i xs - i < length xs
       \<and> bv < xs ! (argmax_from bi bv i xs - i)
       \<and> (\<forall>x \<in> set xs. x \<le> xs ! (argmax_from bi bv i xs - i))
       \<and> (\<forall>j < argmax_from bi bv i xs - i. xs ! j < xs ! (argmax_from bi bv i xs - i)))"
proof (induction xs arbitrary: bi bv i)
  case Nil
  then show ?case by simp
next
  case (Cons x xs)
  show ?case
  proof (cases "bv < x")
    case True
    define r where "r = argmax_from i x (Suc i) xs"
    have r: "argmax_from bi bv i (x # xs) = r" using True by (simp add: r_def)
    from Cons.IH[of i x "Suc i"]
    consider (keep) "r = i" "\<forall>y \<in> set xs. y \<le> x"
      | (later) "Suc i \<le> r" "r - Suc i < length xs" "x < xs ! (r - Suc i)"
          "\<forall>y \<in> set xs. y \<le> xs ! (r - Suc i)" "\<forall>j < r - Suc i. xs ! j < xs ! (r - Suc i)"
      unfolding r_def by blast
    then show ?thesis
    proof cases
      case keep
      then show ?thesis unfolding r using True by auto
    next
      case later
      have idx: "r - i = Suc (r - Suc i)" using later(1) by simp
      have "\<forall>j < r - i. (x # xs) ! j < xs ! (r - Suc i)"
        using later(3,5) idx by (auto simp: nth_Cons split: nat.splits)
      then show ?thesis unfolding r using True later idx by auto
    qed
  next
    case False
    define r where "r = argmax_from bi bv (Suc i) xs"
    have r: "argmax_from bi bv i (x # xs) = r" using False by (simp add: r_def)
    from Cons.IH[of bi bv "Suc i"]
    consider (keep) "r = bi" "\<forall>y \<in> set xs. y \<le> bv"
      | (later) "Suc i \<le> r" "r - Suc i < length xs" "bv < xs ! (r - Suc i)"
          "\<forall>y \<in> set xs. y \<le> xs ! (r - Suc i)" "\<forall>j < r - Suc i. xs ! j < xs ! (r - Suc i)"
      unfolding r_def by blast
    then show ?thesis
    proof cases
      case keep
      then show ?thesis unfolding r using False by auto
    next
      case later
      have idx: "r - i = Suc (r - Suc i)" using later(1) by simp
      have "\<forall>j < r - i. (x # xs) ! j < xs ! (r - Suc i)"
        using later(3,5) idx False by (auto simp: nth_Cons split: nat.splits)
      then show ?thesis unfolding r using False later idx by auto
    qed
  qed
qed

lemma argmax_spec:
  assumes "xs \<noteq> []"
  shows "argmax xs < length xs \<and> (\<forall>j < length xs. xs ! j \<le> xs ! argmax xs)
         \<and> (\<forall>j < argmax xs. xs ! j < xs ! argmax xs)"
proof -
  obtain x ys where xs: "xs = x # ys" using assms by (cases xs) auto
  define r where "r = argmax_from 0 x (Suc 0) ys"
  have "(r = 0 \<and> (\<forall>y \<in> set ys. y \<le> x))
     \<or> (Suc 0 \<le> r \<and> r - Suc 0 < length ys \<and> x < ys ! (r - Suc 0)
        \<and> (\<forall>y \<in> set ys. y \<le> ys ! (r - Suc 0))
        \<and> (\<forall>j < r - Suc 0. ys ! j < ys ! (r - Suc 0)))"
    unfolding r_def by (rule argmax_from_spec)
  then have "r < length (x # ys) \<and> (\<forall>j < length (x # ys). (x # ys) ! j \<le> (x # ys) ! r)
         \<and> (\<forall>j < r. (x # ys) ! j < (x # ys) ! r)"
  proof (elim disjE conjE)
    assume "r = 0" "\<forall>y \<in> set ys. y \<le> x"
    then show ?thesis by (auto simp: nth_Cons split: nat.splits)
  next
    assume later: "Suc 0 \<le> r" "r - Suc 0 < length ys" "x < ys ! (r - Suc 0)"
        "\<forall>y \<in> set ys. y \<le> ys ! (r - Suc 0)" "\<forall>j < r - Suc 0. ys ! j < ys ! (r - Suc 0)"
    then obtain r' where r': "r = Suc r'" by (cases r) auto
    have a: "r < length (x # ys)" using later(2) r' by simp
    have b: "\<forall>j < length (x # ys). (x # ys) ! j \<le> (x # ys) ! r"
      using later(3,4) r' by (auto simp: nth_Cons split: nat.splits)
    have c: "\<forall>j < r. (x # ys) ! j < (x # ys) ! r"
      using later(3,5) r' by (auto simp: nth_Cons split: nat.splits)
    show ?thesis using a b c by blast
  qed
  then show ?thesis by (simp add: xs r_def)
qed

lemma q_rows_valid:
  assumes sh: "valid_shapes nS nA T R_sa" and len: "nS \<le> length V"
  shows "q_rows V T R_sa gamma
           = Inr (map (\<lambda>s. map (\<lambda>a. q_value T R_sa gamma V nS s a) [0..<nA]) [0..<nS])"
proof -
  have R: "mshape R_sa = (nS, nA)" using sh by (simp add: valid_shapes_def)
  have row: "for_each (\<lambda>a. backup T R_sa gamma V nS (int s) (int a)) [0..<nA]
               = Inr (map (\<lambda>a. q_value T R_sa gamma V nS s a) [0..<nA])"
    if "s \<in> set [0..<nS]" for s
  proof (rule for_each_Inr)
    fix a assume "a \<in> set [0..<nA]"
    then show "backup T R_sa gamma V nS (int s) (int a) = Inr (q_value T R_sa gamma V nS s a)"
      using that sh len by (intro backup_nat) simp_all
  qed
  have "for_each (\<lambda>s. for_each (\<lambda>a. backup T R_sa gamma V nS (int s) (int a)) [0..<nA]) [0..<nS]
          = Inr (map (\<lambda>s. map (\<lambda>a. q_value T R_sa gamma V nS s a) [0..<nA]) [0..<nS])"
    using row by (rule for_each_Inr)
  then show ?thesis by (simp add: q_rows_def R)
qed

lemma mget_q_table:
  "s < nS \<Longrightarrow> a < nA \<Longrightarrow> mget (q_table (nS, nA) rows) (int s) (int a) = Inr (rows ! s ! a)"
  by (simp add: mget_def q_table_def axis_index_nat)

lemma policy_improvement_valid:
  assumes sh: "valid_shapes nS nA T R_sa" and len: "nS \<le> length V" and nA: "0 < nA"
  shows "policy_improvement V T R_sa gamma
           = Inr (q_table (nS, nA)
                    (map (\<lambda>s. map (\<lambda>a. q_value T R_sa gamma V nS s a) [0..<nA]) [0..<nS]),
                  map (\<lambda>s. int (argmax (map (\<lambda>a. q_value T R_sa gamma V nS s a) [0..<nA])))
                    [0..<nS])"
proof -
  have R: "mshape R_sa = (nS, nA)" using sh by (simp add: valid_shapes_def)
  show ?thesis
    using nA by (simp add: policy_improvement_def q_rows_valid[OF sh len] argmax_axis1_def R o_def)
qed

text \<open>With an empty action axis, \<open>np.argmax(Q, axis=1)\<close> raises.\<close>

lemma policy_improvement_no_actions:
  assumes "snd (mshape R_sa) = 0"
  shows "policy_improvement V T R_sa gamma = Inl ValueError"
proof -
  obtain nS where R: "mshape R_sa = (nS, 0)" using assms by (cases "mshape R_sa") simp
  have "for_each (\<lambda>s. for_each (\<lambda>a. backup T R_sa gamma V nS (int s) (int a)) [0..<0]) [0..<nS]
          = Inr (map (\<lambda>s. []) [0..<nS])"
    by (rule for_each_Inr) simp
  then show ?thesis
    by (simp add: policy_improvement_def q_rows_def R argmax_axis1_def)
qed

text \<open>
  Exact arithmetic.  For a value function \<open>V\<close> of length \<open>nS\<close> and arrays of valid shapes
  with at least one action, the embedding of \<open>policy_improvement\<close> returns \<open>Q\<close> of shape
  \<open>(nS, nA)\<close> with \<open>Q[s,a] = \<Sum>s'. T[s,a,s'] * (R_sa[s,a] + gamma * V[s'])\<close> and a policy
  that picks in every state the lowest index among the maximisers of \<open>Q[s,\<cdot>]\<close>
  (\<open>argmax_spec\<close> above is the first-match property of \<open>np.argmax\<close> for any row).  The
  equation for \<open>Q\<close> is a fact about the real-number embedding only: the float64 program
  stores the rounded value of the sum, so two actions whose exact sums are equal can get
  different entries, and two whose exact sums differ can get equal ones.
\<close>

lemma policy_improvement_greedy_exact:
  assumes sh: "valid_shapes nS nA T R_sa" and len: "length V = nS" and nA: "0 < nA"
  shows "\<exists>Q pi_new.
           policy_improvement V T R_sa gamma = Inr (Q, pi_new)
         \<and> mshape Q = (nS, nA) \<and> length pi_new = nS
         \<and> (\<forall>s < nS.
              (\<forall>a < nA. mget Q (int s) (int a)
                           = Inr (\<Sum>s' = 0..<nS. telem T s a s' * (melem R_sa s a + gamma * V ! s')))
            \<and> 0 \<le> pi_new ! s \<and> pi_new ! s < int nA
            \<and> (\<forall>a < nA. melem Q s a \<le> melem Q s (nat (pi_new ! s)))
            \<and> (\<forall>a < nA. melem Q s a = melem Q s (nat (pi_new ! s)) \<longrightarrow> pi_new ! s \<le> int a))"
proof -
  let ?row = "\<lambda>s. map (\<lambda>a. q_value T R_sa gamma V nS s a) [0..<nA]"
  let ?Q = "q_table (nS, nA) (map ?row [0..<nS])"
  let ?p = "map (\<lambda>s. int (argmax (?row s))) [0..<nS]"
  have pi: "policy_improvement V T R_sa gamma = Inr (?Q, ?p)"
    using sh len nA by (intro policy_improvement_valid) simp_all
  have props: "(\<forall>a < nA. mget ?Q (int s) (int a)
                   = Inr (\<Sum>s' = 0..<nS. telem T s a s' * (melem R_sa s a + gamma * V ! s')))
            \<and> 0 \<le> ?p ! s \<and> ?p ! s < int nA
            \<and> (\<forall>a < nA. melem ?Q s a \<le> melem ?Q s (nat (?p ! s)))
            \<and> (\<forall>a < nA. melem ?Q s a = melem ?Q s (nat (?p ! s)) \<longrightarrow> ?p ! s \<le> int a)"
    if s: "s < nS" for s
  proof -
    let ?q = "\<lambda>a. q_value T R_sa gamma V nS s a"
    have ne: "?row s \<noteq> []" using nA by simp
    define m where "m = argmax (?row s)"
    have spec: "m < length (?row s)" "\<forall>j < length (?row s). ?row s ! j \<le> ?row s ! m"
      "\<forall>j < m. ?row s ! j < ?row s ! m"
      using argmax_spec[OF ne] unfolding m_def by blast+
    have m1: "m < nA" using spec(1) by simp
    have m2: "?q j \<le> ?q m" if "j < nA" for j
      using spec(2) that m1 by simp
    have m3: "?q j < ?q m" if "j < m" for j
      using spec(3) that m1 by simp
    have el: "melem ?Q s a = ?q a" if "a < nA" for a
      using s that by (simp add: q_table_def)
    have pm: "?p ! s = int m" using s by (simp add: m_def)
    have 1: "\<forall>a < nA. mget ?Q (int s) (int a)
                   = Inr (\<Sum>s' = 0..<nS. telem T s a s' * (melem R_sa s a + gamma * V ! s'))"
      using s by (simp add: mget_q_table q_value_def)
    have 2: "\<forall>a < nA. melem ?Q s a \<le> melem ?Q s m"
      using m1 m2 by (simp add: el)
    have 3: "\<forall>a < nA. melem ?Q s a = melem ?Q s m \<longrightarrow> m \<le> a"
    proof (intro allI impI)
      fix a assume a: "a < nA" "melem ?Q s a = melem ?Q s m"
      show "m \<le> a"
      proof (rule ccontr)
        assume "\<not> m \<le> a"
        then have "a < m" by simp
        then have "?q a < ?q m" by (rule m3)
        then show False using a m1 by (simp add: el)
      qed
    qed
    show ?thesis using 1 2 3 m1 by (simp only: pm) simp
  qed
  have "mshape ?Q = (nS, nA)" by (simp add: q_table_def)
  moreover have "length ?p = nS" by simp
  ultimately show ?thesis using pi props by blast
qed

section \<open>The policy iteration driver\<close>

lemma iteration_body_round:
  "(case policy_evaluation \<pi> T R_sa gamma epsilon of
        None \<Rightarrow> None
      | Some (Inl e) \<Rightarrow> Some (Inl e)
      | Some (Inr V) \<Rightarrow>
          (case policy_improvement V T R_sa gamma of
             Inl e \<Rightarrow> Some (Inl e)
           | Inr (Q, pi_new) \<Rightarrow>
               if \<pi> = pi_new then Some (Inr (Q, \<pi>, steps + 1))
               else c pi_new (steps + 1)))
   = (case improvement_round T R_sa gamma epsilon \<pi> of
        None \<Rightarrow> None
      | Some (Inl e) \<Rightarrow> Some (Inl e)
      | Some (Inr (Q, pi_new)) \<Rightarrow>
          if \<pi> = pi_new then Some (Inr (Q, \<pi>, steps + 1)) else c pi_new (steps + 1))"
  by (simp add: improvement_round_def split: option.splits sum.splits)

lemma iteration_loop_round:
  "iteration_loop T R_sa gamma epsilon \<pi> steps
   = (case improvement_round T R_sa gamma epsilon \<pi> of
        None \<Rightarrow> None
      | Some (Inl e) \<Rightarrow> Some (Inl e)
      | Some (Inr (Q, pi_new)) \<Rightarrow>
          if \<pi> = pi_new then Some (Inr (Q, \<pi>, steps + 1))
          else iteration_loop T R_sa gamma epsilon pi_new (steps + 1))"
  by (subst iteration_loop.simps) (rule iteration_body_round)

lemma run_shape_shift:
  assumes nx: "next_policy T R_sa gamma epsilon \<pi> = p'" and ne: "p' \<noteq> \<pi>"
    and run: "run_shape T R_sa gamma epsilon p' (steps + 1) y k"
  shows "run_shape T R_sa gamma epsilon \<pi> steps y (Suc k)"
proof -
  let ?N = "next_policy T R_sa gamma epsilon"
  have shift: "\<And>n. (?N ^^ Suc n) \<pi> = (?N ^^ n) p'"
    using nx by (simp add: funpow_swap1)
  have unstable: "?N ((?N ^^ j) \<pi>) \<noteq> (?N ^^ j) \<pi>" if "j < Suc k" for j
  proof (cases j)
    case 0
    then show ?thesis using nx ne by simp
  next
    case (Suc j')
    then have "j' < k" using that by simp
    then have "?N ((?N ^^ j') p') \<noteq> (?N ^^ j') p'"
      using run by (simp add: run_shape_def)
    then show ?thesis unfolding Suc by (simp only: shift not_False_eq_True)
  qed
  show ?thesis
    using run unstable unfolding run_shape_def
    by (simp only: shift) (auto split: sum.splits)
qed

lemma iteration_loop_returns:
  assumes ret: "iteration_loop T R_sa gamma epsilon \<pi> steps = Some y"
  shows "\<exists>k. run_shape T R_sa gamma epsilon \<pi> steps y k"
proof -
  let ?P = "\<lambda>T R_sa gamma epsilon \<pi> steps y. \<exists>k. run_shape T R_sa gamma epsilon \<pi> steps y k"
  show ?thesis
  proof (rule iteration_loop.raw_induct[where P = ?P, OF _ ret])
    fix f T R_sa gamma epsilon \<pi> steps z
    assume IH: "\<And>R g e p n b y. f R g e p n b = Some y \<Longrightarrow> ?P R g e p n b y"
      and body: "(case policy_evaluation \<pi> T R_sa gamma epsilon of
        None \<Rightarrow> None
      | Some (Inl e) \<Rightarrow> Some (Inl e)
      | Some (Inr V) \<Rightarrow>
          (case policy_improvement V T R_sa gamma of
             Inl e \<Rightarrow> Some (Inl e)
           | Inr (Q, pi_new) \<Rightarrow>
               if \<pi> = pi_new then Some (Inr (Q, \<pi>, steps + 1))
               else f T R_sa gamma epsilon pi_new (steps + 1))) = Some z"
    have body': "(case improvement_round T R_sa gamma epsilon \<pi> of
        None \<Rightarrow> None
      | Some (Inl e) \<Rightarrow> Some (Inl e)
      | Some (Inr (Q, pi_new)) \<Rightarrow>
          if \<pi> = pi_new then Some (Inr (Q, \<pi>, steps + 1))
          else f T R_sa gamma epsilon pi_new (steps + 1)) = Some z"
      using body by (simp only: iteration_body_round)
    show "\<exists>k. run_shape T R_sa gamma epsilon \<pi> steps z k"
    proof (cases "improvement_round T R_sa gamma epsilon \<pi>")
      case None
      then show ?thesis using body' by simp
    next
      case (Some r)
      show ?thesis
      proof (cases r)
        case (Inl e)
        then have "z = Inl e" using body' Some by simp
        then have "run_shape T R_sa gamma epsilon \<pi> steps z 0"
          using Some Inl by (simp add: run_shape_def)
        then show ?thesis ..
      next
        case (Inr qp)
        obtain Q pi_new where qp: "qp = (Q, pi_new)" by (cases qp)
        have rnd: "improvement_round T R_sa gamma epsilon \<pi> = Some (Inr (Q, pi_new))"
          using Some Inr qp by simp
        have nx: "next_policy T R_sa gamma epsilon \<pi> = pi_new"
          by (simp add: next_policy_def rnd)
        show ?thesis
        proof (cases "\<pi> = pi_new")
          case True
          then have "z = Inr (Q, \<pi>, steps + 1)" using body' rnd by simp
          then have "run_shape T R_sa gamma epsilon \<pi> steps z 0"
            using rnd True by (simp add: run_shape_def)
          then show ?thesis ..
        next
          case False
          then have "f T R_sa gamma epsilon pi_new (steps + 1) = Some z"
            using body' rnd by simp
          from IH[OF this] obtain k where "run_shape T R_sa gamma epsilon pi_new (steps + 1) z k"
            by blast
          with nx False have "run_shape T R_sa gamma epsilon \<pi> steps z (Suc k)"
            by (intro run_shape_shift) auto
          then show ?thesis ..
        qed
      qed
    qed
  qed
qed

lemma iteration_loop_reaches:
  "run_shape T R_sa gamma epsilon \<pi> steps y k \<Longrightarrow>
     iteration_loop T R_sa gamma epsilon \<pi> steps = Some y"
proof (induction k arbitrary: \<pi> steps)
  case 0
  then show ?case
    by (subst iteration_loop_round) (auto simp: run_shape_def split: sum.splits)
next
  case (Suc k)
  let ?N = "next_policy T R_sa gamma epsilon"
  have "?N \<pi> \<noteq> \<pi>" using Suc.prems by (auto simp: run_shape_def)
  then obtain Q where rnd: "improvement_round T R_sa gamma epsilon \<pi> = Some (Inr (Q, ?N \<pi>))"
    by (auto simp: next_policy_def split: option.splits sum.splits)
  have shift: "\<And>n. (?N ^^ Suc n) \<pi> = (?N ^^ n) (?N \<pi>)"
    by (simp add: funpow_swap1)
  have "run_shape T R_sa gamma epsilon (?N \<pi>) (steps + 1) y k"
  proof -
    have "?N ((?N ^^ j) (?N \<pi>)) \<noteq> (?N ^^ j) (?N \<pi>)" if "j < k" for j
    proof -
      have "Suc j < Suc k" using that by simp
      then have "?N ((?N ^^ Suc j) \<pi>) \<noteq> (?N ^^ Suc j) \<pi>"
        using Suc.prems unfolding run_shape_def by blast
      then show ?thesis by (simp only: shift not_False_eq_True)
    qed
    moreover have "case y of
            Inl e \<Rightarrow> improvement_round T R_sa gamma epsilon ((?N ^^ k) (?N \<pi>)) = Some (Inl e)
          | Inr (Q, p, m) \<Rightarrow>
              m = steps + 1 + k + 1 \<and> p = (?N ^^ k) (?N \<pi>)
              \<and> improvement_round T R_sa gamma epsilon p = Some (Inr (Q, p))"
      using Suc.prems unfolding run_shape_def by (simp only: shift) (auto split: sum.splits)
    ultimately show ?thesis unfolding run_shape_def by blast
  qed
  from Suc.IH[OF this] have "iteration_loop T R_sa gamma epsilon (?N \<pi>) (steps + 1) = Some y" .
  then show ?case
    using \<open>?N \<pi> \<noteq> \<pi>\<close> by (subst iteration_loop_round) (simp add: rnd)
qed

lemma evaluation_example_0:
  "policy_evaluation [0, 0] T_example R_example (9 / 10) default_epsilon = Some (Inr [0, 0])"
proof -
  have "evaluation_sweep [0, 0] T_example R_example (9 / 10) 2 [0, 0] = Inr [0, 0]"
    by (simp add: sweep_simps T_example_def R_example_def upt_2)
  then have "evaluation_loop [0, 0] T_example R_example (9 / 10) default_epsilon 2 [0, 0]
      = Some (Inr [0, 0])"
    by (subst evaluation_loop.simps) (simp add: abs_diff_def default_epsilon_def)
  then show ?thesis
    by (simp add: policy_evaluation_def R_example_def numeral_2_eq_2)
qed

lemma improvement_example_0:
  "policy_improvement [0, 0] T_example R_example (9 / 10)
     = Inr (q_table (2, 2) [[0, 1], [0, 0]], [1, 0])"
  by (simp add: improvement_simps T_example_def R_example_def upt_2)

lemma evaluation_example_1:
  "policy_evaluation [1, 0] T_example R_example (9 / 10) default_epsilon = Some (Inr [1, 0])"
proof -
  have s0: "evaluation_sweep [1, 0] T_example R_example (9 / 10) 2 [0, 0] = Inr [1, 0]"
    by (simp add: sweep_simps T_example_def R_example_def upt_2)
  have s1: "evaluation_sweep [1, 0] T_example R_example (9 / 10) 2 [1, 0] = Inr [1, 0]"
    by (simp add: sweep_simps T_example_def R_example_def upt_2)
  have "evaluation_loop [1, 0] T_example R_example (9 / 10) default_epsilon 2 [1, 0]
      = Some (Inr [1, 0])"
    by (subst evaluation_loop.simps) (simp add: s1 abs_diff_def default_epsilon_def)
  then have "evaluation_loop [1, 0] T_example R_example (9 / 10) default_epsilon 2 [0, 0]
      = Some (Inr [1, 0])"
    by (subst evaluation_loop.simps) (simp add: s0 abs_diff_def default_epsilon_def)
  then show ?thesis
    by (simp add: policy_evaluation_def R_example_def numeral_2_eq_2)
qed

lemma improvement_example_1:
  "policy_improvement [1, 0] T_example R_example (9 / 10)
     = Inr (q_table (2, 2) [[9 / 10, 1], [0, 0]], [1, 0])"
  by (simp add: improvement_simps T_example_def R_example_def upt_2)

lemma policy_iteration_example:
  "policy_iteration (zeros2 2 2) [0, 0] (arange 2, arange 2, T_example, R_example, 9 / 10)
       default_epsilon
     = Some (Inr (q_table (2, 2) [[9 / 10, 1], [0, 0]], [1, 0], 2))"
proof -
  have r0: "improvement_round T_example R_example (9 / 10) default_epsilon [0, 0]
      = Some (Inr (q_table (2, 2) [[0, 1], [0, 0]], [1, 0]))"
    by (simp add: improvement_round_def evaluation_example_0 improvement_example_0)
  have r1: "improvement_round T_example R_example (9 / 10) default_epsilon [1, 0]
      = Some (Inr (q_table (2, 2) [[9 / 10, 1], [0, 0]], [1, 0]))"
    by (simp add: improvement_round_def evaluation_example_1 improvement_example_1)
  have "iteration_loop T_example R_example (9 / 10) default_epsilon [1, 0] 1
      = Some (Inr (q_table (2, 2) [[9 / 10, 1], [0, 0]], [1, 0], 2))"
    by (subst iteration_loop_round) (simp add: r1)
  then have "iteration_loop T_example R_example (9 / 10) default_epsilon [0, 0] 0
      = Some (Inr (q_table (2, 2) [[9 / 10, 1], [0, 0]], [1, 0], 2))"
    by (subst iteration_loop_round) (simp add: r0)
  then show ?thesis by (simp add: policy_iteration_def)
qed

text \<open>
  Claim C3.  \<open>policy_iteration\<close> returns \<open>(Q, \<pi>, steps)\<close> exactly when \<open>steps = k + 1\<close>
  for the first \<open>k\<close> such that the policy after \<open>k\<close> rounds from the initial one is
  returned unchanged by its own round (evaluation, then improvement), every earlier round
  having produced a different policy; \<open>Q\<close> is the table of that last round and \<open>\<pi>\<close>
  that policy.  So \<open>steps\<close> counts the rounds and is at least 1, and the returned policy
  equals the improvement of its own evaluation.  The initial \<open>Q\<close> is not used.
\<close>

theorem policy_iteration_loop:
  "(policy_iteration Q0 \<pi>0 (S, A, T, R_sa, gamma) epsilon = Some (Inr (Q, \<pi>, steps))
      \<longleftrightarrow> (\<exists>k. steps = k + 1
             \<and> \<pi> = (next_policy T R_sa gamma epsilon ^^ k) \<pi>0
             \<and> improvement_round T R_sa gamma epsilon \<pi> = Some (Inr (Q, \<pi>))
             \<and> (\<forall>j < k. next_policy T R_sa gamma epsilon
                            ((next_policy T R_sa gamma epsilon ^^ j) \<pi>0)
                          \<noteq> (next_policy T R_sa gamma epsilon ^^ j) \<pi>0)))
   \<and> (policy_iteration Q0 \<pi>0 (S, A, T, R_sa, gamma) epsilon = Some (Inr (Q, \<pi>, steps))
      \<longrightarrow> 1 \<le> steps
          \<and> (\<exists>V. policy_evaluation \<pi> T R_sa gamma epsilon = Some (Inr V)
                 \<and> policy_improvement V T R_sa gamma = Inr (Q, \<pi>)))"
proof -
  let ?N = "next_policy T R_sa gamma epsilon"
  let ?lhs = "policy_iteration Q0 \<pi>0 (S, A, T, R_sa, gamma) epsilon = Some (Inr (Q, \<pi>, steps))"
  let ?rhs = "\<exists>k. steps = k + 1 \<and> \<pi> = (?N ^^ k) \<pi>0
             \<and> improvement_round T R_sa gamma epsilon \<pi> = Some (Inr (Q, \<pi>))
             \<and> (\<forall>j < k. ?N ((?N ^^ j) \<pi>0) \<noteq> (?N ^^ j) \<pi>0)"
  have loop: "?lhs \<longleftrightarrow> iteration_loop T R_sa gamma epsilon \<pi>0 0 = Some (Inr (Q, \<pi>, steps))"
    by (simp add: policy_iteration_def)
  have "?rhs" if ?lhs
  proof -
    from that loop obtain k where "run_shape T R_sa gamma epsilon \<pi>0 0 (Inr (Q, \<pi>, steps)) k"
      using iteration_loop_returns by blast
    then show ?rhs by (auto simp: run_shape_def)
  qed
  moreover have "?lhs" if ?rhs
  proof -
    from that obtain k where "run_shape T R_sa gamma epsilon \<pi>0 0 (Inr (Q, \<pi>, steps)) k"
      by (auto simp: run_shape_def)
    then show ?lhs using loop iteration_loop_reaches by blast
  qed
  moreover have "\<exists>V. policy_evaluation \<pi> T R_sa gamma epsilon = Some (Inr V)
                 \<and> policy_improvement V T R_sa gamma = Inr (Q, \<pi>)"
    if "improvement_round T R_sa gamma epsilon \<pi> = Some (Inr (Q, \<pi>))"
    using that by (auto simp: improvement_round_def split: option.splits sum.splits)
  ultimately show ?thesis by auto
qed

theorem policy_iteration_loop_witness:
  "policy_iteration (zeros2 2 2) [0, 0] (arange 2, arange 2, T_example, R_example, 9 / 10)
       default_epsilon
     = Some (Inr (q_table (2, 2) [[9 / 10, 1], [0, 0]], [1, 0], 2))
   \<and> (\<exists>V. policy_evaluation [1, 0] T_example R_example (9 / 10) default_epsilon = Some (Inr V)
          \<and> policy_improvement V T_example R_example (9 / 10)
              = Inr (q_table (2, 2) [[9 / 10, 1], [0, 0]], [1, 0]))"
  using policy_iteration_example
    policy_iteration_loop[of "zeros2 2 2" "[0, 0]" "arange 2" "arange 2" T_example R_example
      "9 / 10" default_epsilon "q_table (2, 2) [[9 / 10, 1], [0, 0]]" "[1, 0]" 2]
  by blast

lemma evaluation_cycle_0:
  "policy_evaluation [0, 0, 0, 0] T_cycle R_cycle (1 / 2) default_epsilon
     = Some (Inr [3 / (2 * 10 ^ 8), 3 / 10 ^ 8, 3 / (2 * 10 ^ 8), 0])"
  unfolding policy_evaluation_def Let_def
  apply (subst evaluation_loop.simps)
  apply (simp add: sweep_simps T_cycle_def R_cycle_def upt_4 replicate_4 default_epsilon_def)
  apply (subst evaluation_loop.simps)
  apply (simp add: sweep_simps T_cycle_def R_cycle_def upt_4 replicate_4 default_epsilon_def)
  apply (subst evaluation_loop.simps)
  apply (simp add: sweep_simps T_cycle_def R_cycle_def upt_4 replicate_4 default_epsilon_def)
  done

lemma evaluation_cycle_1:
  "policy_evaluation [1, 0, 0, 0] T_cycle R_cycle (1 / 2) default_epsilon
     = Some (Inr [7 / (8 * 10 ^ 8), 3 / 10 ^ 8, 1 / 10 ^ 8, 0])"
  unfolding policy_evaluation_def Let_def
  apply (subst evaluation_loop.simps)
  apply (simp add: sweep_simps T_cycle_def R_cycle_def upt_4 replicate_4 default_epsilon_def)
  apply (subst evaluation_loop.simps)
  apply (simp add: sweep_simps T_cycle_def R_cycle_def upt_4 replicate_4 default_epsilon_def)
  done

lemma next_policy_cycle_0:
  "next_policy T_cycle R_cycle (1 / 2) default_epsilon [0, 0, 0, 0] = [1, 0, 0, 0]"
  apply (simp only: next_policy_def improvement_round_def evaluation_cycle_0 option.case sum.case)
  apply (simp add: improvement_simps T_cycle_def R_cycle_def upt_4 upt_2 default_epsilon_def)
  done

lemma next_policy_cycle_1:
  "next_policy T_cycle R_cycle (1 / 2) default_epsilon [1, 0, 0, 0] = [0, 0, 0, 0]"
  apply (simp only: next_policy_def improvement_round_def evaluation_cycle_1 option.case sum.case)
  apply (simp add: improvement_simps T_cycle_def R_cycle_def upt_4 upt_2 default_epsilon_def)
  done

lemma run_shape_fixed:
  assumes "run_shape T R_sa gamma epsilon \<pi> steps y k"
  shows "next_policy T R_sa gamma epsilon ((next_policy T R_sa gamma epsilon ^^ k) \<pi>)
           = (next_policy T R_sa gamma epsilon ^^ k) \<pi>"
  using assms by (cases y) (auto simp: run_shape_def next_policy_def)

lemma funpow_cycle:
  "(next_policy T_cycle R_cycle (1 / 2) default_epsilon ^^ k) [0, 0, 0, 0] = [0, 0, 0, 0]
   \<or> (next_policy T_cycle R_cycle (1 / 2) default_epsilon ^^ k) [0, 0, 0, 0] = [1, 0, 0, 0]"
  by (induction k) (auto simp: next_policy_cycle_0 next_policy_cycle_1)

lemma cycle_never_returns:
  "policy_iteration (zeros2 4 2) [0, 0, 0, 0] (arange 4, arange 2, T_cycle, R_cycle, 1 / 2)
     default_epsilon = None"
proof (cases "iteration_loop T_cycle R_cycle (1 / 2) default_epsilon [0, 0, 0, 0] 0")
  case None
  then show ?thesis by (simp add: policy_iteration_def)
next
  case (Some y)
  let ?N = "next_policy T_cycle R_cycle (1 / 2) default_epsilon"
  from iteration_loop_returns[OF Some] obtain k
    where "run_shape T_cycle R_cycle (1 / 2) default_epsilon [0, 0, 0, 0] 0 y k" by blast
  then have fixed: "?N ((?N ^^ k) [0, 0, 0, 0]) = (?N ^^ k) [0, 0, 0, 0]"
    by (rule run_shape_fixed)
  from funpow_cycle[of k] have False
  proof
    assume "(?N ^^ k) [0, 0, 0, 0] = [0, 0, 0, 0]"
    with fixed show False by (simp add: next_policy_cycle_0)
  next
    assume "(?N ^^ k) [0, 0, 0, 0] = [1, 0, 0, 0]"
    with fixed show False by (simp add: next_policy_cycle_1)
  qed
  then show ?thesis ..
qed

lemma row_stochastic_cycle: "row_stochastic T_cycle"
proof -
  have "(s::nat) < 4 \<longleftrightarrow> s = 0 \<or> s = 1 \<or> s = 2 \<or> s = 3" for s by auto
  then show ?thesis
    by (auto simp: row_stochastic_def T_cycle_def less_2_cases
        sum.atLeast0_lessThan_Suc numeral_eq_Suc)
qed

text \<open>
  Claim C4, as stated, fails.  Evaluation stops at an iterate that is only \<open>epsilon\<close>-close
  to its own update, so two policies can each be improved into the other.  On the
  four-state MDP above (\<open>gamma = 1/2\<close>, default \<open>epsilon\<close>), started from the all-zero
  policy, the driver alternates between \<open>[0,0,0,0]\<close> and \<open>[1,0,0,0]\<close> and never returns.
\<close>

theorem policy_iteration_cycles:
  "valid_shapes 4 2 T_cycle R_cycle \<and> row_stochastic T_cycle \<and> valid_policy 4 2 [0, 0, 0, 0]
   \<and> policy_iteration (zeros2 4 2) [0, 0, 0, 0] (arange 4, arange 2, T_cycle, R_cycle, 1 / 2)
        default_epsilon = None"
proof -
  have "valid_shapes 4 2 T_cycle R_cycle"
    by (simp add: valid_shapes_def T_cycle_def R_cycle_def)
  moreover have "valid_policy 4 2 [0, 0, 0, 0]" by (simp add: valid_policy_def)
  ultimately show ?thesis using row_stochastic_cycle cycle_never_returns by simp
qed

lemma for_each_length:
  "for_each f xs = Inr ys \<Longrightarrow> length ys = length xs"
  by (induction xs arbitrary: ys) (auto split: sum.splits)

lemma for_each_all:
  "for_each f xs = Inr ys \<Longrightarrow> y \<in> set ys \<Longrightarrow> \<exists>x \<in> set xs. f x = Inr y"
  by (induction xs arbitrary: ys) (auto split: sum.splits)

lemma policy_improvement_policy:
  assumes imp: "policy_improvement V T R_sa gamma = Inr (Q, p)" and R: "mshape R_sa = (nS, nA)"
  shows "valid_policy nS nA p"
proof -
  from imp obtain rows where rows: "q_rows V T R_sa gamma = Inr rows"
    and am: "argmax_axis1 nA rows = Inr p"
    by (auto simp: policy_improvement_def R split: sum.splits)
  have nA: "0 < nA" and p: "p = map (\<lambda>row. int (argmax row)) rows"
    using am by (auto simp: argmax_axis1_def split: if_splits)
  have fe: "for_each (\<lambda>s. for_each (\<lambda>a. backup T R_sa gamma V nS (int s) (int a)) [0..<nA])
              [0..<nS] = Inr rows"
    using rows by (simp add: q_rows_def R)
  have len: "length rows = nS" using for_each_length[OF fe] by simp
  have "length row = nA" if "row \<in> set rows" for row
  proof -
    from for_each_all[OF fe that] obtain s
      where "for_each (\<lambda>a. backup T R_sa gamma V nS (int s) (int a)) [0..<nA] = Inr row"
      by blast
    from for_each_length[OF this] show ?thesis by simp
  qed
  then have "argmax row < nA" if "row \<in> set rows" for row
    using argmax_spec[of row] that nA by fastforce
  then show ?thesis by (auto simp: valid_policy_def p len)
qed

lemma next_policy_valid:
  assumes "mshape R_sa = (nS, nA)" "valid_policy nS nA \<pi>"
  shows "valid_policy nS nA (next_policy T R_sa gamma epsilon \<pi>)"
proof (cases "improvement_round T R_sa gamma epsilon \<pi>")
  case None
  then show ?thesis using assms(2) by (simp add: next_policy_def)
next
  case (Some r)
  show ?thesis
  proof (cases r)
    case (Inl e)
    then show ?thesis using Some assms(2) by (simp add: next_policy_def)
  next
    case (Inr qp)
    obtain Q p where qp: "qp = (Q, p)" by (cases qp)
    have "\<exists>V. policy_improvement V T R_sa gamma = Inr (Q, p)"
      using Some Inr qp by (auto simp: improvement_round_def split: option.splits sum.splits)
    then have "valid_policy nS nA p" using assms(1) policy_improvement_policy by blast
    then show ?thesis using Some Inr qp by (simp add: next_policy_def)
  qed
qed

lemma funpow_next_policy_valid:
  assumes "mshape R_sa = (nS, nA)" "valid_policy nS nA \<pi>"
  shows "valid_policy nS nA ((next_policy T R_sa gamma epsilon ^^ k) \<pi>)"
  by (induction k) (simp_all add: assms next_policy_valid)

lemma card_valid_policies:
  "finite {p. valid_policy nS nA p} \<and> card {p. valid_policy nS nA p} = nA ^ nS"
proof -
  have eq: "{p. valid_policy nS nA p} = {xs. set xs \<subseteq> {0..<int nA} \<and> length xs = nS}"
    by (auto simp: valid_policy_def)
  have "finite {xs. set xs \<subseteq> {0..<int nA} \<and> length xs = nS}"
    by (rule finite_lists_length_eq) simp
  moreover have "card {xs. set xs \<subseteq> {0..<int nA} \<and> length xs = nS} = card {0..<int nA} ^ nS"
    by (rule card_lists_length_eq) simp
  ultimately show ?thesis by (simp add: eq)
qed

lemma run_length_bound:
  fixes N :: "'a \<Rightarrow> 'a"
  assumes fin: "finite P" and inP: "\<And>j. (N ^^ j) x \<in> P"
    and unstable: "\<And>j. j < k \<Longrightarrow> N ((N ^^ j) x) \<noteq> (N ^^ j) x"
    and fixed: "N ((N ^^ k) x) = (N ^^ k) x"
  shows "k + 1 \<le> card P"
proof -
  have stay: "(N ^^ (k + d)) x = (N ^^ k) x" for d
    by (induction d) (simp_all add: fixed)
  have inj: "inj_on (\<lambda>j. (N ^^ j) x) {0..k}"
  proof (rule inj_onI)
    fix i j assume ij: "i \<in> {0..k}" "j \<in> {0..k}" "(N ^^ i) x = (N ^^ j) x"
    have neq: False if lt: "a < b" "b \<le> k" and eq: "(N ^^ a) x = (N ^^ b) x" for a b
    proof -
      have "(N ^^ ((k - b) + a)) x = (N ^^ (k - b)) ((N ^^ a) x)"
        by (simp only: funpow_add o_apply)
      also have "\<dots> = (N ^^ (k - b)) ((N ^^ b) x)" by (simp only: eq)
      also have "\<dots> = (N ^^ ((k - b) + b)) x" by (simp only: funpow_add o_apply)
      also have "\<dots> = (N ^^ k) x" using lt(2) by simp
      finally have at: "(N ^^ (a + (k - b))) x = (N ^^ k) x" by (simp add: add.commute)
      have "a + (k - b) < k" using lt by simp
      then have "N ((N ^^ (a + (k - b))) x) \<noteq> (N ^^ (a + (k - b))) x" by (rule unstable)
      then show False using at fixed by simp
    qed
    show "i = j"
    proof (rule ccontr)
      assume "i \<noteq> j"
      then consider "i < j" | "j < i" by linarith
      then show False
      proof cases
        case 1 then show False using neq[of i j] ij by simp
      next
        case 2 then show False using neq[of j i] ij by simp
      qed
    qed
  qed
  have "(\<lambda>j. (N ^^ j) x) ` {0..k} \<subseteq> P" using inP by auto
  then have "card ((\<lambda>j. (N ^^ j) x) ` {0..k}) \<le> card P" using fin by (rule card_mono[rotated])
  then show ?thesis using inj by (simp add: card_image)
qed

text \<open>
  Claim C4, amended.  Whenever \<open>policy_iteration\<close>, started from a valid policy, returns
  \<open>(Q, \<pi>, steps)\<close>, the number of rounds is at least 1 and at most \<open>nA ^ nS\<close>, the
  number of deterministic policies.
\<close>

theorem policy_iteration_steps_bound:
  assumes R: "mshape R_sa = (nS, nA)" and pol: "valid_policy nS nA \<pi>0"
    and ret: "policy_iteration Q0 \<pi>0 (S, A, T, R_sa, gamma) epsilon = Some (Inr (Q, \<pi>, steps))"
  shows "1 \<le> steps \<and> steps \<le> nA ^ nS"
proof -
  let ?N = "next_policy T R_sa gamma epsilon"
  have "iteration_loop T R_sa gamma epsilon \<pi>0 0 = Some (Inr (Q, \<pi>, steps))"
    using ret by (simp add: policy_iteration_def)
  from iteration_loop_returns[OF this] obtain k
    where run: "run_shape T R_sa gamma epsilon \<pi>0 0 (Inr (Q, \<pi>, steps)) k" by blast
  have steps: "steps = k + 1" using run by (simp add: run_shape_def)
  have unstable: "\<And>j. j < k \<Longrightarrow> ?N ((?N ^^ j) \<pi>0) \<noteq> (?N ^^ j) \<pi>0"
    using run by (simp add: run_shape_def)
  have fixed: "?N ((?N ^^ k) \<pi>0) = (?N ^^ k) \<pi>0" using run by (rule run_shape_fixed)
  have inP: "\<And>j. (?N ^^ j) \<pi>0 \<in> {p. valid_policy nS nA p}"
    using funpow_next_policy_valid[OF R pol] by simp
  have "k + 1 \<le> card {p. valid_policy nS nA p}"
    using card_valid_policies[of nS nA] inP unstable fixed
    by (intro run_length_bound[where N = ?N and x = \<pi>0]) auto
  then show ?thesis using steps card_valid_policies[of nS nA] by simp
qed

theorem policy_iteration_steps_bound_witness:
  "mshape R_example = (2, 2) \<and> valid_policy 2 2 [0, 0]
   \<and> policy_iteration (zeros2 2 2) [0, 0] (arange 2, arange 2, T_example, R_example, 9 / 10)
        default_epsilon
       = Some (Inr (q_table (2, 2) [[9 / 10, 1], [0, 0]], [1, 0], 2))
   \<and> (1 :: nat) \<le> 2 \<and> (2 :: nat) \<le> 2 ^ 2"
proof -
  have R: "mshape R_example = (2, 2)" by (simp add: R_example_def)
  show ?thesis
    using policy_iteration_steps_bound[OF R valid_policy_zero policy_iteration_example]
      R valid_policy_zero policy_iteration_example
    by simp
qed

section \<open>The agent wrapper: fitting and persistence\<close>

subsection \<open>update\_agent\<close>

text \<open>
  Claim C5.  \<open>update_agent\<close> on a fitted agent changes nothing, and a second call after
  any call that returned gives the same outcome and leaves the agent, hence \<open>pi\<close>, \<open>Q\<close>
  and \<open>steps\<close>, as the first call left it.  On an unfitted agent the call runs
  \<open>policy_iteration\<close> on the all-zero policy and \<open>Q\<close> table with the arrays of the
  environment: whenever that run returns \<open>(Q, \<pi>, steps)\<close>, the call returns normally with
  \<open>S\<close>, \<open>A\<close>, \<open>T\<close>, \<open>R_sa\<close> set from the environment, the result stored and the agent
  marked fitted; and a call that returns normally has come about in this way.
\<close>

theorem update_agent_fits_once:
  "(self_policy_fitted ag \<longrightarrow> update_agent ag = Some (Inr (), ag))
   \<and> (update_agent ag = Some (r, ag') \<longrightarrow> update_agent ag' = Some (r, ag'))
   \<and> (\<not> self_policy_fitted ag
        \<and> policy_iteration (zeros2 (self_n_obs ag) (self_n_actions ag))
              (replicate (self_n_obs ag) 0)
              (arange (self_n_obs ag), arange (self_n_actions ag),
               get_transition_matrix (self_env ag), get_reward_per_action (self_env ag),
               self_gamma ag)
              default_epsilon = Some (Inr (Q, \<pi>, steps))
        \<longrightarrow> (\<exists>ag1. update_agent ag = Some (Inr (), ag1)
              \<and> self_policy_fitted ag1
              \<and> self_S ag1 = Some (arange (self_n_obs ag))
              \<and> self_A ag1 = Some (arange (self_n_actions ag))
              \<and> self_T ag1 = Some (get_transition_matrix (self_env ag))
              \<and> self_R_sa ag1 = Some (get_reward_per_action (self_env ag))
              \<and> self_Q ag1 = Some Q \<and> self_pi ag1 = Some \<pi> \<and> self_steps ag1 = steps))
   \<and> (\<not> self_policy_fitted ag \<and> update_agent ag = Some (Inr (), ag') \<longrightarrow>
        self_policy_fitted ag'
      \<and> self_S ag' = Some (arange (self_n_obs ag))
      \<and> self_A ag' = Some (arange (self_n_actions ag))
      \<and> self_T ag' = Some (get_transition_matrix (self_env ag))
      \<and> self_R_sa ag' = Some (get_reward_per_action (self_env ag))
      \<and> (\<exists>Q \<pi> steps.
            policy_iteration (zeros2 (self_n_obs ag) (self_n_actions ag))
                (replicate (self_n_obs ag) 0)
                (arange (self_n_obs ag), arange (self_n_actions ag),
                 get_transition_matrix (self_env ag), get_reward_per_action (self_env ag),
                 self_gamma ag)
                default_epsilon = Some (Inr (Q, \<pi>, steps))
          \<and> self_Q ag' = Some Q \<and> self_pi ag' = Some \<pi> \<and> self_steps ag' = steps))"
proof -
  have a: "update_agent ag = Some (Inr (), ag)" if "self_policy_fitted ag"
    using that by (simp add: update_agent_def)
  have b: "update_agent ag' = Some (r, ag')" if run: "update_agent ag = Some (r, ag')"
  proof (cases "self_policy_fitted ag")
    case True
    then show ?thesis using run by (simp add: update_agent_def)
  next
    case False
    then show ?thesis using run
      by (auto simp: update_agent_def Let_def split: option.splits sum.splits)
  qed
  have c: "\<exists>ag1. update_agent ag = Some (Inr (), ag1)
              \<and> self_policy_fitted ag1
              \<and> self_S ag1 = Some (arange (self_n_obs ag))
              \<and> self_A ag1 = Some (arange (self_n_actions ag))
              \<and> self_T ag1 = Some (get_transition_matrix (self_env ag))
              \<and> self_R_sa ag1 = Some (get_reward_per_action (self_env ag))
              \<and> self_Q ag1 = Some Q \<and> self_pi ag1 = Some \<pi> \<and> self_steps ag1 = steps"
    if "\<not> self_policy_fitted ag"
      "policy_iteration (zeros2 (self_n_obs ag) (self_n_actions ag))
              (replicate (self_n_obs ag) 0)
              (arange (self_n_obs ag), arange (self_n_actions ag),
               get_transition_matrix (self_env ag), get_reward_per_action (self_env ag),
               self_gamma ag)
              default_epsilon = Some (Inr (Q, \<pi>, steps))"
    using that by (simp add: update_agent_def Let_def)
  have d: "self_policy_fitted ag'
      \<and> self_S ag' = Some (arange (self_n_obs ag))
      \<and> self_A ag' = Some (arange (self_n_actions ag))
      \<and> self_T ag' = Some (get_transition_matrix (self_env ag))
      \<and> self_R_sa ag' = Some (get_reward_per_action (self_env ag))
      \<and> (\<exists>Q \<pi> steps.
            policy_iteration (zeros2 (self_n_obs ag) (self_n_actions ag))
                (replicate (self_n_obs ag) 0)
                (arange (self_n_obs ag), arange (self_n_actions ag),
                 get_transition_matrix (self_env ag), get_reward_per_action (self_env ag),
                 self_gamma ag)
                default_epsilon = Some (Inr (Q, \<pi>, steps))
          \<and> self_Q ag' = Some Q \<and> self_pi ag' = Some \<pi> \<and> self_steps ag' = steps)"
    if "\<not> self_policy_fitted ag \<and> update_agent ag = Some (Inr (), ag')"
    using that by (auto simp: update_agent_def Let_def split: option.splits sum.splits)
  show ?thesis using a b c d by blast
qed

lemma update_agent_example: "update_agent agent_example = Some (Inr (), fitted_example)"
proof -
  have "policy_iteration (zeros2 2 2) (replicate 2 0)
          (arange 2, arange 2, T_example, R_example, 9 / 10) default_epsilon
        = Some (Inr (q_table (2, 2) [[9 / 10, 1], [0, 0]], [1, 0], 2))"
    using policy_iteration_example by (simp add: numeral_2_eq_2)
  then show ?thesis
    by (simp add: update_agent_def agent_example_def fitted_example_def init_agent_def
        env_example_def Let_def arange_def upt_2)
qed

theorem update_agent_fits_once_witness:
  "\<not> self_policy_fitted agent_example
   \<and> policy_iteration (zeros2 2 2) [0, 0] (arange 2, arange 2, T_example, R_example, 9 / 10)
        default_epsilon
       = Some (Inr (q_table (2, 2) [[9 / 10, 1], [0, 0]], [1, 0], 2))
   \<and> (\<exists>ag1. update_agent agent_example = Some (Inr (), ag1)
          \<and> self_policy_fitted ag1 \<and> self_pi ag1 = Some [1, 0] \<and> self_steps ag1 = 2
          \<and> self_Q ag1 = Some (q_table (2, 2) [[9 / 10, 1], [0, 0]])
          \<and> update_agent ag1 = Some (Inr (), ag1))"
proof -
  have f: "\<not> self_policy_fitted agent_example"
    by (simp add: agent_example_def init_agent_def)
  have pi: "policy_iteration
             (zeros2 (self_n_obs agent_example) (self_n_actions agent_example))
             (replicate (self_n_obs agent_example) 0)
             (arange (self_n_obs agent_example), arange (self_n_actions agent_example),
              get_transition_matrix (self_env agent_example),
              get_reward_per_action (self_env agent_example), self_gamma agent_example)
             default_epsilon
           = Some (Inr (q_table (2, 2) [[9 / 10, 1], [0, 0]], [1, 0], 2))"
    using policy_iteration_example
    by (simp add: agent_example_def init_agent_def env_example_def numeral_2_eq_2)
  have "\<exists>ag1. update_agent agent_example = Some (Inr (), ag1)
          \<and> self_policy_fitted ag1 \<and> self_pi ag1 = Some [1, 0] \<and> self_steps ag1 = 2
          \<and> self_Q ag1 = Some (q_table (2, 2) [[9 / 10, 1], [0, 0]])"
    using update_agent_fits_once[of agent_example "Inr ()" agent_example
        "q_table (2, 2) [[9 / 10, 1], [0, 0]]" "[1, 0]" 2,
        THEN conjunct2, THEN conjunct2, THEN conjunct1, THEN mp, OF conjI, OF f pi]
    by blast
  then obtain ag1 where
    ag1: "update_agent agent_example = Some (Inr (), ag1)" "self_policy_fitted ag1"
      "self_pi ag1 = Some [1, 0]" "self_steps ag1 = 2"
      "self_Q ag1 = Some (q_table (2, 2) [[9 / 10, 1], [0, 0]])"
    by blast
  have "update_agent ag1 = Some (Inr (), ag1)"
    using update_agent_fits_once[of agent_example "Inr ()" ag1, THEN conjunct2, THEN conjunct1,
        THEN mp, OF ag1(1)] .
  then show ?thesis using ag1 f policy_iteration_example by blast
qed

lemma policy_iteration_half:
  "policy_iteration (zeros2 1 1) [0] (arange 1, arange 1, T_half, R_zero, 9 / 10) default_epsilon
     = Some (Inr (q_table (1, 1) [[0]], [0], 1))"
proof -
  have ev: "policy_evaluation [0] T_half R_zero (9 / 10) default_epsilon = Some (Inr [0])"
    unfolding policy_evaluation_def Let_def
    by (subst evaluation_loop.simps)
       (simp add: sweep_simps T_half_def R_zero_def default_epsilon_def)
  have im: "policy_improvement [0] T_half R_zero (9 / 10) = Inr (q_table (1, 1) [[0]], [0])"
    by (simp add: improvement_simps T_half_def R_zero_def)
  have "improvement_round T_half R_zero (9 / 10) default_epsilon [0]
      = Some (Inr (q_table (1, 1) [[0]], [0]))"
    by (simp add: improvement_round_def ev im)
  then have "iteration_loop T_half R_zero (9 / 10) default_epsilon [0] 0
      = Some (Inr (q_table (1, 1) [[0]], [0], 1))"
    by (subst iteration_loop_round) simp
  then show ?thesis by (simp add: policy_iteration_def)
qed

lemma not_row_stochastic_half: "\<not> row_stochastic T_half"
  by (simp add: row_stochastic_def T_half_def)

lemma update_agent_half_result:
  "map_option fst (update_agent agent_half) = Some (Inr ())"
  using policy_iteration_half
  by (simp add: update_agent_def agent_half_def init_agent_def Let_def)

text \<open>
  Claim C6, as stated, fails: \<open>update_agent\<close> does not validate the transition tensor.
  For the one-state environment whose slice sums to \<open>1/2\<close> it returns normally.
\<close>

theorem update_agent_accepts_non_stochastic:
  "\<not> row_stochastic (get_transition_matrix (self_env agent_half))
   \<and> \<not> self_policy_fitted agent_half
   \<and> map_option fst (update_agent agent_half) = Some (Inr ())"
  using update_agent_half_result not_row_stochastic_half
  by (simp add: agent_half_def init_agent_def)

lemma improvement_round_valid:
  assumes sh: "valid_shapes nS nA T R_sa" and pol: "valid_policy nS nA \<pi>"
    and nS: "0 < nS" and nA: "0 < nA"
  shows "improvement_round T R_sa gamma epsilon \<pi> \<noteq> Some (Inl e)"
proof -
  have R: "fst (mshape R_sa) = nS" using sh by (simp add: valid_shapes_def)
  from policy_evaluation_valid_result[OF sh pol nS, of gamma epsilon]
  show ?thesis
  proof
    assume "policy_evaluation \<pi> T R_sa gamma epsilon = None"
    then show ?thesis by (simp add: improvement_round_def)
  next
    assume "\<exists>k. policy_evaluation \<pi> T R_sa gamma epsilon
                 = Some (Inr ((jacobi_update \<pi> T R_sa gamma ^^ k) (replicate nS 0)))
             \<and> max_change_below epsilon
                 (jacobi_update \<pi> T R_sa gamma
                    ((jacobi_update \<pi> T R_sa gamma ^^ k) (replicate nS 0)))
                 ((jacobi_update \<pi> T R_sa gamma ^^ k) (replicate nS 0))"
    then obtain k where ev: "policy_evaluation \<pi> T R_sa gamma epsilon
                 = Some (Inr ((jacobi_update \<pi> T R_sa gamma ^^ k) (replicate nS 0)))"
      by blast
    have len: "nS \<le> length ((jacobi_update \<pi> T R_sa gamma ^^ k) (replicate nS 0))"
      using length_funpow_jacobi[where V = "replicate nS 0" and R_sa = R_sa] by (simp add: R)
    show ?thesis
      by (simp add: improvement_round_def ev policy_improvement_valid[OF sh len nA])
  qed
qed

lemma policy_iteration_valid_no_error:
  assumes sh: "valid_shapes nS nA T R_sa" and pol: "valid_policy nS nA \<pi>"
    and nS: "0 < nS" and nA: "0 < nA"
  shows "policy_iteration Q0 \<pi> (S, A, T, R_sa, gamma) epsilon \<noteq> Some (Inl e)"
proof
  assume "policy_iteration Q0 \<pi> (S, A, T, R_sa, gamma) epsilon = Some (Inl e)"
  then have "iteration_loop T R_sa gamma epsilon \<pi> 0 = Some (Inl e)"
    by (simp add: policy_iteration_def)
  from iteration_loop_returns[OF this] obtain k
    where "improvement_round T R_sa gamma epsilon
             ((next_policy T R_sa gamma epsilon ^^ k) \<pi>) = Some (Inl e)"
    by (auto simp: run_shape_def)
  moreover have "valid_policy nS nA ((next_policy T R_sa gamma epsilon ^^ k) \<pi>)"
    using sh pol by (intro funpow_next_policy_valid) (simp_all add: valid_shapes_def)
  ultimately show False using improvement_round_valid[OF sh _ nS nA] by blast
qed

lemma valid_policy_zeros: "0 < nA \<Longrightarrow> valid_policy nS nA (replicate nS 0)"
  by (simp add: valid_policy_def)

lemma update_agent_valid_shapes:
  assumes sh: "valid_shapes nS nA (get_transition_matrix (self_env ag))
                 (get_reward_per_action (self_env ag))"
    and obs: "self_n_obs ag = nS" and nS: "0 < nS" and nA: "0 < nA"
    and unfitted: "\<not> self_policy_fitted ag"
    and ret: "update_agent ag = Some (r, ag')"
  shows "r = Inr () \<and> self_policy_fitted ag'"
proof -
  have "policy_iteration (zeros2 nS (self_n_actions ag)) (replicate nS 0)
          (arange nS, arange (self_n_actions ag), get_transition_matrix (self_env ag),
           get_reward_per_action (self_env ag), self_gamma ag) default_epsilon \<noteq> Some (Inl e)"
    for e
    using sh valid_policy_zeros[OF nA] nS nA by (rule policy_iteration_valid_no_error)
  then show ?thesis
    using ret unfitted obs
    by (auto simp: update_agent_def Let_def split: option.splits sum.splits)
qed

lemma for_each_Inr_each:
  "for_each f xs = Inr ys \<Longrightarrow> x \<in> set xs \<Longrightarrow> \<exists>y. f x = Inr y"
  by (induction xs arbitrary: ys) (auto split: sum.splits)

lemma for_each_Inl_some:
  "for_each f xs = Inl e \<Longrightarrow> \<exists>x \<in> set xs. f x = Inl e"
  by (induction xs) (auto split: sum.splits)

lemma py_sum_Inr_each:
  "py_sum f xs acc = Inr r \<Longrightarrow> x \<in> set xs \<Longrightarrow> \<exists>y. f x = Inr y"
  by (induction xs arbitrary: acc) (auto split: sum.splits)

lemma py_sum_Inl_some:
  "py_sum f xs acc = Inl e \<Longrightarrow> \<exists>x \<in> set xs. f x = Inl e"
  by (induction xs arbitrary: acc) (auto split: sum.splits)

lemma axis_index_Inl: "axis_index n i = Inl e \<Longrightarrow> e = IndexError"
  by (auto simp: axis_index_def split: if_splits)

lemma backup_term_Inl: "backup_term T R_sa gamma V s a k = Inl e \<Longrightarrow> e = IndexError"
  by (auto simp: backup_term_def tget_def mget_def vget_def
      split: sum.splits prod.splits dest: axis_index_Inl)

lemma evaluation_sweep_Inl:
  assumes "evaluation_sweep \<pi> T R_sa gamma nS V = Inl e"
  shows "e = IndexError"
proof -
  from assms obtain s where
    s: "(case vget \<pi> (int s) of Inl e \<Rightarrow> Inl e
         | Inr a \<Rightarrow> backup T R_sa gamma V nS (int s) a) = Inl e"
    unfolding evaluation_sweep_def by (blast dest: for_each_Inl_some)
  show ?thesis
  proof (cases "vget \<pi> (int s)")
    case (Inl e')
    then show ?thesis using s by (auto simp: vget_def split: sum.splits dest: axis_index_Inl)
  next
    case (Inr a)
    then have "py_sum (backup_term T R_sa gamma V (int s) a) [0..<nS] 0 = Inl e"
      using s by (simp add: backup_def)
    then show ?thesis by (blast dest: py_sum_Inl_some backup_term_Inl)
  qed
qed

lemma tget_Inr_in_range:
  assumes "tget T (int s) (int a) (int k) = Inr t" "tshape T = (d0, d1, d2)"
  shows "s < d0 \<and> a < d1 \<and> k < d2"
  using assms by (auto simp: tget_def axis_index_def split: sum.splits if_splits)

lemma evaluation_sweep_zero_policy_needs_shape:
  assumes sweep: "evaluation_sweep (replicate nS 0) T R_sa gamma nS V = Inr W"
    and T: "tshape T = (d0, d1, d2)" and nS: "0 < nS"
  shows "nS \<le> d0 \<and> 0 < d1 \<and> nS \<le> d2"
proof -
  have rng: "s < d0 \<and> 0 < d1 \<and> k < d2" if s: "s < nS" and k: "k < nS" for s k
  proof -
    from sweep s obtain y where
      "(case vget (replicate nS (0::int)) (int s) of Inl e \<Rightarrow> Inl e
         | Inr a \<Rightarrow> backup T R_sa gamma V nS (int s) a) = Inr y"
      unfolding evaluation_sweep_def by (fastforce dest: for_each_Inr_each[where x = s])
    then have "backup T R_sa gamma V nS (int s) 0 = Inr y"
      using s by (simp add: vget_def axis_index_def)
    then obtain z where "backup_term T R_sa gamma V (int s) 0 k = Inr z"
      unfolding backup_def using k by (fastforce dest: py_sum_Inr_each[where x = k])
    then obtain t where "tget T (int s) (int 0) (int k) = Inr t"
      by (auto simp: backup_term_def split: sum.splits)
    from tget_Inr_in_range[OF this T] show ?thesis by simp
  qed
  from rng[of "nS - 1" "nS - 1"] nS show ?thesis by auto
qed

lemma update_agent_small_tensor:
  assumes T: "tshape (get_transition_matrix (self_env ag)) = (d0, d1, d2)"
    and R: "fst (mshape (get_reward_per_action (self_env ag))) = nS"
    and obs: "self_n_obs ag = nS" and nS: "0 < nS"
    and small: "d0 < nS \<or> d1 = 0 \<or> d2 < nS"
    and unfitted: "\<not> self_policy_fitted ag"
  shows "map_option fst (update_agent ag) = Some (Inl IndexError)"
proof -
  let ?T = "get_transition_matrix (self_env ag)"
  let ?R = "get_reward_per_action (self_env ag)"
  have "evaluation_sweep (replicate nS 0) ?T ?R (self_gamma ag) nS (replicate nS 0)
          = Inl IndexError"
  proof (cases "evaluation_sweep (replicate nS 0) ?T ?R (self_gamma ag) nS (replicate nS 0)")
    case (Inl e)
    then show ?thesis using evaluation_sweep_Inl by blast
  next
    case (Inr W)
    from evaluation_sweep_zero_policy_needs_shape[OF Inr T nS] small show ?thesis by auto
  qed
  then have "evaluation_loop (replicate nS 0) ?T ?R (self_gamma ag) default_epsilon nS
               (replicate nS 0) = Some (Inl IndexError)"
    by (subst evaluation_loop.simps) simp
  then have "policy_evaluation (replicate nS 0) ?T ?R (self_gamma ag) default_epsilon
               = Some (Inl IndexError)"
    by (simp add: policy_evaluation_def R)
  then have "iteration_loop ?T ?R (self_gamma ag) default_epsilon (replicate nS 0) 0
               = Some (Inl IndexError)"
    by (subst iteration_loop.simps) simp
  then show ?thesis
    using unfitted obs by (simp add: update_agent_def Let_def policy_iteration_def)
qed

text \<open>
  Claim C6, amended.  \<open>update_agent\<close> performs no validation of \<open>T\<close>.  For an unfitted
  agent with \<open>nS = n_obs \<ge> 1\<close> states: when the environment arrays have the shapes
  \<open>(nS, nA, nS)\<close> and \<open>(nS, nA)\<close> with \<open>nA \<ge> 1\<close>, then, whatever the entries of \<open>T\<close> are,
  a call that returns raises nothing and leaves the agent fitted; when \<open>T\<close> has fewer
  than \<open>nS\<close> entries along a state axis or no action at all, the first out-of-range
  read of the first evaluation sweep raises \<open>IndexError\<close>, which is what the call raises.
\<close>

theorem update_agent_no_validation:
  assumes unfitted: "\<not> self_policy_fitted ag" and obs: "self_n_obs ag = nS" and nS: "0 < nS"
  shows "(valid_shapes nS nA (get_transition_matrix (self_env ag))
             (get_reward_per_action (self_env ag))
          \<and> 0 < nA \<and> update_agent ag = Some (r, ag')
          \<longrightarrow> r = Inr () \<and> self_policy_fitted ag')
       \<and> (tshape (get_transition_matrix (self_env ag)) = (d0, d1, d2)
          \<and> fst (mshape (get_reward_per_action (self_env ag))) = nS
          \<and> (d0 < nS \<or> d1 = 0 \<or> d2 < nS)
          \<longrightarrow> map_option fst (update_agent ag) = Some (Inl IndexError))"
  using update_agent_valid_shapes[OF _ obs nS _ unfitted]
    update_agent_small_tensor[OF _ _ obs nS _ unfitted]
  by blast

theorem update_agent_no_validation_witness:
  "\<not> self_policy_fitted agent_half \<and> self_n_obs agent_half = 1
   \<and> valid_shapes 1 1 T_half R_zero \<and> \<not> row_stochastic T_half
   \<and> map_option (\<lambda>x. self_policy_fitted (snd x)) (update_agent agent_half) = Some True
   \<and> \<not> self_policy_fitted agent_short \<and> self_n_obs agent_short = 2
   \<and> tshape T_half = (1, 1, 1) \<and> mshape R_two_states = (2, 1)
   \<and> map_option fst (update_agent agent_short) = Some (Inl IndexError)"
proof -
  have half: "\<not> self_policy_fitted agent_half" "self_n_obs agent_half = 1"
    "get_transition_matrix (self_env agent_half) = T_half"
    "get_reward_per_action (self_env agent_half) = R_zero"
    by (simp_all add: agent_half_def init_agent_def)
  have short: "\<not> self_policy_fitted agent_short" "self_n_obs agent_short = 2"
    "get_transition_matrix (self_env agent_short) = T_half"
    "get_reward_per_action (self_env agent_short) = R_two_states"
    by (simp_all add: agent_short_def init_agent_def)
  have sh: "valid_shapes 1 1 T_half R_zero" "tshape T_half = (1, 1, 1)"
    "mshape R_two_states = (2, 1)"
    by (simp_all add: valid_shapes_def T_half_def R_zero_def R_two_states_def)
  obtain r ag' where ret: "update_agent agent_half = Some (r, ag')"
    using update_agent_half_result by (cases "update_agent agent_half") auto
  have "self_policy_fitted ag'"
    using update_agent_no_validation[OF half(1,2), of 1 r ag'] ret sh(1)
    by (simp add: half)
  moreover have "map_option fst (update_agent agent_short) = Some (Inl IndexError)"
    using update_agent_no_validation[OF short(1,2), of 1 r ag' 1 1 1] sh(2,3)
    by (simp add: short)
  ultimately show ?thesis
    using ret half short sh not_row_stochastic_half by simp
qed

subsection \<open>load\<close>

text \<open>
  Claim C8, as stated, fails: \<open>load\<close> does not compare the stored array with \<open>nS\<close>.
  With two states and a stored array of length 3, \<open>load\<close> returns the array, stores it
  in \<open>pi\<close> and marks the agent fitted.
\<close>

theorem load_ignores_shape_mismatch:
  "self_n_obs agent_example = 2
   \<and> files world_mismatch (self_filename agent_example) = Some (IntArray [0, 1, 0])
   \<and> load agent_example world_mismatch
       = (Inr [0, 1, 0], agent_example\<lparr> self_pi := Some [0, 1, 0], self_policy_fitted := True \<rparr>)"
  by (simp add: load_def np_load_def world_mismatch_def agent_example_def init_agent_def
      env_example_def)

text \<open>
  Claim C8, amended.  \<open>load\<close> reads the integer array stored under the agent's file name
  into \<open>pi\<close>, whatever its length, marks the agent fitted and returns the array; when
  the file does not exist it raises \<open>FileNotFoundError\<close> to the caller and leaves the
  agent unchanged.
\<close>

theorem load_reads_any_shape:
  "(files w (self_filename ag) = None \<longrightarrow> load ag w = (Inl FileNotFoundError, ag))
   \<and> (files w (self_filename ag) = Some (IntArray xs) \<longrightarrow>
        load ag w = (Inr xs, ag\<lparr> self_pi := Some xs, self_policy_fitted := True \<rparr>))"
  by (simp add: load_def np_load_def)

theorem load_reads_any_shape_witness:
  "files world_empty (self_filename agent_example) = None
   \<and> load agent_example world_empty = (Inl FileNotFoundError, agent_example)
   \<and> files world_mismatch (self_filename agent_example) = Some (IntArray [0, 1, 0])
   \<and> fst (load agent_example world_mismatch) = Inr [0, 1, 0]"
proof -
  have a: "files world_empty (self_filename agent_example) = None"
    by (simp add: world_empty_def)
  have b: "files world_mismatch (self_filename agent_example) = Some (IntArray [0, 1, 0])"
    by (simp add: world_mismatch_def agent_example_def init_agent_def)
  show ?thesis
    using load_reads_any_shape[of world_empty agent_example]
      load_reads_any_shape[of world_mismatch agent_example "[0, 1, 0]"] a b
    by simp
qed

subsection \<open>save\<close>

text \<open>
  Before fitting, \<open>save\<close> issues one warning, writes nothing and leaves the agent
  unchanged.
\<close>

lemma save_before_fit:
  assumes "\<not> self_policy_fitted ag"
  shows "fst (save ag w) = ag \<and> files (snd (save ag w)) = files w
         \<and> warned (snd (save ag w))
             = warned w @ [''Tried to save policy but policy is not fitted yet.'']"
  using assms by (simp add: save_def)

text \<open>
  After fitting, with a file name that ends in \<open>.npy\<close> (as the default \<open>policy.npy\<close>
  does), \<open>save\<close> stores the policy under that name, and \<open>load\<close> reads it back.
\<close>

lemma save_with_npy_suffix:
  assumes "self_policy_fitted ag" "endswith (self_filename ag) ''.npy''" "self_pi ag = Some p"
  shows "fst (save ag w) = ag \<and> warned (snd (save ag w)) = warned w
         \<and> files (snd (save ag w)) = (files w)(self_filename ag \<mapsto> IntArray p)
         \<and> fst (load ag (snd (save ag w))) = Inr p"
  using assms by (simp add: save_def np_save_def npy_name_def np_array_def load_def np_load_def)

text \<open>
  Claim C9.  After fitting, \<open>save\<close> is to persist \<open>pi\<close> to the configured file, the
  file that \<open>load\<close> reads (the class documents \<open>filename\<close> as the path to save and load
  the policy).  With the file name \<open>policy\<close> the code does not: \<open>np.save\<close> appends
  \<open>.npy\<close>, so the array is stored under \<open>policy.npy\<close>, nothing is stored under
  \<open>policy\<close>, and \<open>load\<close> on the same agent raises \<open>FileNotFoundError\<close>.
\<close>

theorem save_misses_configured_file:
  "self_policy_fitted agent_noext \<and> self_filename agent_noext = ''policy''
   \<and> self_pi agent_noext = Some [1, 0]
   \<and> files (snd (save agent_noext world_empty)) ''policy'' = None
   \<and> files (snd (save agent_noext world_empty)) ''policy.npy'' = Some (IntArray [1, 0])
   \<and> fst (load agent_noext (snd (save agent_noext world_empty))) = Inl FileNotFoundError"
  by (simp add: save_def np_save_def npy_name_def endswith_def np_array_def agent_noext_def
      fitted_example_def world_empty_def load_def np_load_def)

end
